theory Spec2Isabelle
  imports Main "HOL-Library.Sublist" "HOL-Library.Char_ord" "HOL-Library.List_Lexorder"
begin

section \<open>Data model\<close>

text \<open>
  The adapter of \<^verbatim>\<open>etcdv3/etcdv3.go\<close> talks to an etcd cluster through the client
  library and hands its answers back as values of the package \<^verbatim>\<open>model\<close>. Go strings and
  byte slices are both sequences of bytes; they are \<^typ>\<open>string\<close> here (a \<^typ>\<open>char\<close> is
  one byte), and the conversion \<^verbatim>\<open>string(bytes)\<close> is the identity.
\<close>

text \<open>
  Modelled from the spec: the struct \<^verbatim>\<open>model.Node\<close> is declared in the package
  \<^verbatim>\<open>model\<close>, which is not among the sources. The spec gives it as
  \<^verbatim>\<open>{ path: string, value: string|empty, isDirectory: bool }\<close>; the source reads and
  writes the fields \<^verbatim>\<open>Path\<close> and \<^verbatim>\<open>Value\<close>.
\<close>

record Node =
  Path :: string
  Value :: string
  IsDir :: bool

text \<open>
  A key-value pair as the client returns it (\<^verbatim>\<open>mvccpb.KeyValue\<close>): the raw key and the
  raw value. A keys-only scan leaves the value empty.
\<close>

record KeyValue =
  Key :: string
  KvValue :: string

text \<open>The answer to a range request (\<^verbatim>\<open>clientv3.GetResponse\<close>), with the two fields the source reads.\<close>

record GetResponse =
  Kvs :: "KeyValue list"
  Count :: int

text \<open>
  Errors. \<^verbatim>\<open>client_error\<close> is what a call of the client library can return: the
  context's deadline passed, or any other failure of the transport or the server.
\<close>

datatype client_error = DeadlineExceeded | RpcError string

text \<open>
  Modelled from the spec: the sentinels \<^verbatim>\<open>model.ERR_KEY_NOT_FOUND\<close> and
  \<^verbatim>\<open>model.ERR_ADD_KEY\<close> are declared in the missing package \<^verbatim>\<open>model\<close>; the spec
  calls them NotFoundError and AlreadyExistsError (the generic add failure), and calls
  the failure of the path converter DecodingError. An error of the client library is
  passed through unchanged (\<^verbatim>\<open>ClientError\<close>).
\<close>

datatype error = ERR_KEY_NOT_FOUND | ERR_ADD_KEY | DecodingError | ClientError client_error

section \<open>The path converter\<close>

text \<open>
  Modelled from the spec: the method \<^verbatim>\<open>ConvertToPath\<close> is called by \<^verbatim>\<open>List\<close> and
  \<^verbatim>\<open>Val\<close> but its body is not among the sources. The definitions of this section
  follow the contract of section 4.1 of the spec, clause by clause:

  \<^item> ``strip the leading prefix'': \<open>stripPrefix\<close>;
  \<^item> ``empty remainder (full key equals prefix exactly) is ignored -- a node does not
    list itself'': such an entry gives no node;
  \<^item> ``if the remainder contains a path separator, the entry belongs to a deeper
    level -- collapse it to the single path segment up to (and including) the next
    separator and mark that resulting path as a directory (no value)'';
  \<^item> ``if the remainder contains no further separator, the entry is a leaf and the
    resulting Node's path is the full key with isDirectory=false'';
  \<^item> ``deduplicate by resulting path'': a node is added only when no node with its path
    is there already;
  \<^item> ``malformed key data (non-UTF8 or encoding failure) surfaces as a DecodingError;
    the whole conversion fails atomically (partial results discarded)''. The spec does
    not say which keys are malformed, so the decoder is a parameter: it gives the key's
    text, or nothing.

  The prose leaves two things open, and the example of the spec's section 8 settles
  both: for the keys \<^verbatim>\<open>/a/b\<close> and \<^verbatim>\<open>/a/c/d\<close> under the prefix \<^verbatim>\<open>/a\<close> the listing is
  the leaf \<^verbatim>\<open>/a/b\<close> and the directory \<^verbatim>\<open>/a/c\<close>. First, the remainder \<^verbatim>\<open>/b\<close> is a
  leaf: a separator at the very start of the remainder joins the prefix to the child, it
  belongs to the child's segment and does not make the entry deeper. Second, the
  directory is \<^verbatim>\<open>/a/c\<close> and not \<^verbatim>\<open>/a/c/\<close>: the prose counts the separator that ends
  the segment into it, the example does not, and the model follows the example.

  The prefix is a prefix of the key as a string, which is how the store scans: under
  \<^verbatim>\<open>/a\<close> the key \<^verbatim>\<open>/ab\<close> has the remainder \<^verbatim>\<open>b\<close>. A leaf carries the entry's value
  (the listing scans keys only, so the value is empty there). The spec leaves the order
  of the nodes open; the model keeps the order of first appearance.

  Section 4.2 of the spec has \<^verbatim>\<open>get\<close> pass the single pair of its fetch, whose key is
  the path asked for, through the converter ``to obtain a consistently-shaped Node''. The
  contract of section 4.1 gives no node for that pair. The two cannot both describe the
  one converter; this model is the contract of section 4.1, and nothing that is proved
  of \<^verbatim>\<open>Val\<close> below rests on it: there the converter is a parameter.
\<close>

definition sep :: char where
  "sep = CHR ''/''"

text \<open>Modelled from the spec: the remainder of a key, the prefix stripped if it is there.\<close>

definition stripPrefix :: "string \<Rightarrow> string \<Rightarrow> string" where
  "stripPrefix p k = (if prefix p k then drop (length p) k else k)"

text \<open>
  Modelled from the spec: the remainder without the separator that joins it to the
  prefix, if it starts with one. A separator in what is left is a further separator.
\<close>

fun dropJoin :: "string \<Rightarrow> string" where
  "dropJoin [] = []"
| "dropJoin (c # cs) = (if c = sep then cs else c # cs)"

text \<open>
  Modelled from the spec: the first segment of a remainder, which is the joining
  separator, if there is one, and everything after it up to the next separator.
\<close>

fun firstSegment :: "string \<Rightarrow> string" where
  "firstSegment [] = []"
| "firstSegment (c # cs) =
     (if c = sep then c # takeWhile (\<lambda>x. x \<noteq> sep) cs else takeWhile (\<lambda>x. x \<noteq> sep) (c # cs))"

text \<open>
  Modelled from the spec: the node that one entry stands for: none for the prefix
  itself, a directory for a deeper key, a leaf otherwise.
\<close>

definition entryNode :: "string \<Rightarrow> string \<Rightarrow> string \<Rightarrow> Node option" where
  "entryNode p fullKey v =
     (let r = stripPrefix p fullKey in
      if r = [] then None
      else if sep \<in> set (dropJoin r)
        then Some \<lparr>Path = p @ firstSegment r, Value = [], IsDir = True\<rparr>
        else Some \<lparr>Path = fullKey, Value = v, IsDir = False\<rparr>)"

text \<open>Modelled from the spec: deduplication by resulting path.\<close>

definition addNode :: "Node list \<Rightarrow> Node \<Rightarrow> Node list" where
  "addNode acc n = (if Path n \<in> set (map Path acc) then acc else acc @ [n])"

text \<open>
  Modelled from the spec: the conversion, entry by entry. A key that cannot be decoded
  ends it with the error, and the nodes made so far are dropped.
\<close>

fun convertLoop ::
  "(string \<Rightarrow> string option) \<Rightarrow> string \<Rightarrow> KeyValue list \<Rightarrow> Node list \<Rightarrow> error + Node list"
where
  "convertLoop dec p [] acc = Inr acc"
| "convertLoop dec p (kv # kvs) acc =
     (case dec (Key kv) of
        None \<Rightarrow> Inl DecodingError
      | Some k \<Rightarrow>
          (case entryNode p k (KvValue kv) of
             None \<Rightarrow> convertLoop dec p kvs acc
           | Some n \<Rightarrow> convertLoop dec p kvs (addNode acc n)))"

text \<open>
  Modelled from the spec: \<^verbatim>\<open>ConvertToPath(path, keys)\<close>, the contract
  \<^verbatim>\<open>convert(prefix, entries) -> list of Node, error\<close> of section 4.1.
\<close>

definition ConvertToPath ::
  "(string \<Rightarrow> string option) \<Rightarrow> string \<Rightarrow> KeyValue list \<Rightarrow> error + Node list"
where
  "ConvertToPath dec p entries = convertLoop dec p entries []"

section \<open>Paths and their segments\<close>

text \<open>
  The words in which the converter's properties are stated. They are defined on the
  strings alone, apart from the converter: a path is cut at its separators, as
  \<^verbatim>\<open>strings.Split(s, "/")\<close> cuts it, and its segments are the pieces that are not
  empty. \<^verbatim>\<open>/a/c/d\<close> has the segments \<^verbatim>\<open>a\<close>, \<^verbatim>\<open>c\<close>, \<^verbatim>\<open>d\<close>; so has \<^verbatim>\<open>/a/c/d/\<close>.
\<close>

fun splitSep :: "string \<Rightarrow> string list" where
  "splitSep [] = [[]]"
| "splitSep (c # cs) =
     (if c = sep then [] # splitSep cs else (c # hd (splitSep cs)) # tl (splitSep cs))"

definition segments :: "string \<Rightarrow> string list" where
  "segments s = filter (\<lambda>x. x \<noteq> []) (splitSep s)"

text \<open>
  The path \<open>q\<close> lies exactly one segment below the path \<open>p\<close>: its segments are those
  of \<open>p\<close> and one more.
\<close>

definition oneSegmentDeeper :: "string \<Rightarrow> string \<Rightarrow> bool" where
  "oneSegmentDeeper p q =
     (length (segments q) = Suc (length (segments p))
      \<and> take (length (segments p)) (segments q) = segments p)"

text \<open>
  The first segment of the key \<open>k\<close> after the path \<open>p\<close>: the segment of \<open>k\<close> that
  follows as many segments as \<open>p\<close> has, if there is one; and the set of the first
  segments after \<open>p\<close> that occur among keys.
\<close>

definition firstSegmentAfter :: "string \<Rightarrow> string \<Rightarrow> string option" where
  "firstSegmentAfter p k =
     (case drop (length (segments p)) (segments k) of [] \<Rightarrow> None | x # _ \<Rightarrow> Some x)"

definition firstSegments :: "string \<Rightarrow> string list \<Rightarrow> string set" where
  "firstSegments p ks = set (List.map_filter (firstSegmentAfter p) ks)"

text \<open>The keys of a scan result, decoded.\<close>

definition keysOf :: "(string \<Rightarrow> string option) \<Rightarrow> KeyValue list \<Rightarrow> string list" where
  "keysOf dec entries = List.map_filter (\<lambda>kv. dec (Key kv)) entries"

text \<open>
  A prefix scan is a scan of strings: under \<^verbatim>\<open>/a\<close> it also finds \<^verbatim>\<open>/ab\<close>, which is no
  descendant of \<^verbatim>\<open>/a\<close>. A key continues the prefix \<open>p\<close> as a path when it starts with
  \<open>p\<close> as a directory (\<open>p\<close> itself if it ends with the separator, \<open>p\<close> and the
  separator otherwise) and goes on with a character that is not the separator, that
  is, with a segment that is not empty.
\<close>

definition asDirectory :: "string \<Rightarrow> string" where
  "asDirectory p = (if p \<noteq> [] \<and> last p = sep then p else p @ [sep])"

definition continuesPath :: "string \<Rightarrow> string \<Rightarrow> bool" where
  "continuesPath p k =
     (prefix (asDirectory p) k
      \<and> (case drop (length (asDirectory p)) k of [] \<Rightarrow> False | c # _ \<Rightarrow> c \<noteq> sep))"

section \<open>The client's read calls\<close>

text \<open>
  \<^verbatim>\<open>List\<close> and \<^verbatim>\<open>Val\<close> read the store through \<^verbatim>\<open>sdk.cli.Get(ctx, key, opts...)\<close>. The
  store and the network are outside the repository, so the model does not compute the
  answers: the environment fixes, for the n-th call of a run, how long the call takes and
  what it answers (any keys in any order, or an error). The client's own part is the
  context: a call whose answer is not there before the context's deadline returns
  \<^verbatim>\<open>context.DeadlineExceeded\<close>, and so does every later call under that context.

  The state threaded through the calls is the clock, the requests sent so far (each with
  the deadline of its context) and the lines written with \<^verbatim>\<open>log.Println\<close>.
\<close>

datatype request = GetPrefixKeysOnly string | GetKey string

record call =
  latency :: nat
  answer :: "client_error + GetResponse"

record world =
  now :: nat
  sent :: "(nat \<times> request) list"
  printed :: "string list"

text \<open>\<^verbatim>\<open>DefaultTimeout = 5 * time.Second\<close>, in nanoseconds as \<^verbatim>\<open>time.Duration\<close> counts.\<close>

definition DefaultTimeout :: nat where
  "DefaultTimeout = 5 * 1000000000"

text \<open>\<^verbatim>\<open>context.WithTimeout(context.Background(), DefaultTimeout)\<close>: the deadline of the new context.\<close>

definition WithTimeout :: "world \<Rightarrow> nat" where
  "WithTimeout w = now w + DefaultTimeout"

definition cliGet ::
  "(nat \<Rightarrow> call) \<Rightarrow> nat \<Rightarrow> request \<Rightarrow> world \<Rightarrow> (client_error + GetResponse) \<times> world"
where
  "cliGet net ctx rq w =
     (let c = net (length (sent w));
          w1 = w\<lparr>sent := sent w @ [(ctx, rq)]\<rparr>
      in if now w + latency c < ctx
         then (answer c, w1\<lparr>now := now w + latency c\<rparr>)
         else (Inl DeadlineExceeded, w1\<lparr>now := max (now w) ctx\<rparr>))"

text \<open>
  The message of line 134, as the bytes of its UTF-8 text (five Chinese characters:
  ``error reading the value'').
\<close>

definition readValueError :: string where
  "readValueError = map char_of
     [232, 175, 187, 229, 143, 150, 229, 128, 188, 233, 148, 153, 232, 175, 175 :: nat]"

section \<open>List and Val\<close>

text \<open>
  The loop of lines 131 to 140. It runs over every node of the list, in order; the body
  has no test of the node's kind. A failed fetch is logged and the loop goes on with
  the next node (\<^verbatim>\<open>continue\<close>); the \<^verbatim>\<open>err\<close> of the loop body is a variable of its own
  and does not reach the caller. The list holds pointers, so the assignment to
  \<^verbatim>\<open>v.Value\<close> changes the node in the list.
\<close>

fun fillValues :: "(nat \<Rightarrow> call) \<Rightarrow> nat \<Rightarrow> Node list \<Rightarrow> world \<Rightarrow> Node list \<times> world" where
  "fillValues net ctx [] w = ([], w)"
| "fillValues net ctx (v # vs) w =
     (case cliGet net ctx (GetKey (Path v)) w of
        (Inl err, w1) \<Rightarrow>
          (let (vs', w2) = fillValues net ctx vs (w1\<lparr>printed := printed w1 @ [readValueError]\<rparr>)
           in (v # vs', w2))
      | (Inr rv, w1) \<Rightarrow>
          (let v' = (if length (Kvs rv) > 0 then v\<lparr>Value := KvValue (Kvs rv ! 0)\<rparr> else v);
               (vs', w2) = fillValues net ctx vs w1
           in (v' # vs', w2)))"

text \<open>
  \<^verbatim>\<open>List\<close> (lines 109 to 143). The converter is a parameter, since its body is not among
  the sources; a failed conversion leaves the list empty (the spec: partial results are
  discarded), and the source goes on to sort and fill that list before it returns the
  converter's error. Go returns the list and the error side by side, and so does the
  model.

  \<^verbatim>\<open>sort.Slice\<close> with the comparison \<^verbatim>\<open>list[i].Path < list[j].Path\<close> leaves a permutation
  of the list that is ordered by \<^verbatim>\<open>Path\<close>; Go compares strings byte by byte, which is the
  order of \<^typ>\<open>string\<close> here. \<^verbatim>\<open>sort.Slice\<close> is not stable: among nodes with equal
  paths it may leave any order, and the model takes the stable one. So the model gives
  the code's paths, requests, clock and log for every converter, and the code's nodes,
  position by position, when the converter's paths are pairwise distinct (as those of
  a converter that deduplicates by path are); what is proved about single nodes below
  is stated for distinct paths.
\<close>

definition List ::
  "(string \<Rightarrow> KeyValue list \<Rightarrow> error + Node list) \<Rightarrow> (nat \<Rightarrow> call) \<Rightarrow> string \<Rightarrow> world
   \<Rightarrow> (Node list \<times> error option) \<times> world"
where
  "List conv net path w =
     (let ctx = WithTimeout w in
      case cliGet net ctx (GetPrefixKeysOnly path) w of
        (Inl err, w1) \<Rightarrow> (([], Some (ClientError err)), w1)
      | (Inr resp, w1) \<Rightarrow>
          if Count resp = 0 then (([], None), w1)
          else
            (let (list, err) = (case conv path (Kvs resp) of
                                  Inl e \<Rightarrow> ([], Some e)
                                | Inr l \<Rightarrow> (l, None));
                 (list', w2) = fillValues net ctx (sort_key Path list) w1
             in ((list', err), w2)))"

text \<open>
  The state of a run of the loop at the moment when the fetch for the node at index
  \<open>k\<close> is about to be sent: the loop has dealt with the \<open>k\<close> nodes before it.
\<close>

definition beforeFetch :: "(nat \<Rightarrow> call) \<Rightarrow> nat \<Rightarrow> Node list \<Rightarrow> world \<Rightarrow> nat \<Rightarrow> world" where
  "beforeFetch net ctx vs w k = snd (fillValues net ctx (take k vs) w)"

text \<open>
  What a Go call does: it returns, or the runtime panics on an index out of range.
\<close>

datatype 'a outcome = Returns 'a | PanicIndexOutOfRange

text \<open>
  \<^verbatim>\<open>Val\<close> (lines 146 to 164). \<^verbatim>\<open>data = list[0]\<close> has no test of the length before it.
\<close>

definition Val ::
  "(string \<Rightarrow> KeyValue list \<Rightarrow> error + Node list) \<Rightarrow> (nat \<Rightarrow> call) \<Rightarrow> string \<Rightarrow> world
   \<Rightarrow> (error + Node) outcome \<times> world"
where
  "Val conv net path w =
     (let ctx = WithTimeout w in
      case cliGet net ctx (GetKey path) w of
        (Inl err, w1) \<Rightarrow> (Returns (Inl (ClientError err)), w1)
      | (Inr resp, w1) \<Rightarrow>
          if length (Kvs resp) = 0 then (Returns (Inl ERR_KEY_NOT_FOUND), w1)
          else
            (case conv path (Kvs resp) of
               Inl e \<Rightarrow> (Returns (Inl e), w1)
             | Inr list \<Rightarrow>
                 (case list of
                    [] \<Rightarrow> (PanicIndexOutOfRange, w1)
                  | d # _ \<Rightarrow> (Returns (Inr d), w1))))"

section \<open>Add and Del\<close>

text \<open>
  What is proved of \<^verbatim>\<open>Add\<close> and \<^verbatim>\<open>Del\<close> speaks of what the store holds afterwards,
  so these two are modelled against a store. The store gives every key its version and its
  value; version 0 means that the key is absent, which is etcd's own convention and the
  one the comparison of \<^verbatim>\<open>Add\<close> relies on. A put raises the version by one, a delete
  sets it back to 0.

  A transaction is one request: the store evaluates the comparisons and, if all hold,
  applies the operations of \<^verbatim>\<open>Then\<close>, in one step (the source gives no \<^verbatim>\<open>Else\<close>).
\<close>

type_synonym store = "string \<Rightarrow> nat \<times> string"

datatype compare = VersionEquals string nat

datatype op = OpPut string string

datatype store_request = TxnRequest "compare list" "op list" | DeleteRequest string

record TxnResponse =
  Succeeded :: bool

record DeleteResponse =
  Deleted :: nat

text \<open>The store and the requests the client has issued to it, oldest first.\<close>

record etcd =
  content :: store
  journal :: "store_request list"

text \<open>
  What the network does to a request: it is answered; it is lost before it reaches the
  store; or the store applies it and the answer is lost (then the client sees the error
  although the request took effect). A passed deadline is one of the errors.
\<close>

datatype transport = Delivered | LostBefore client_error | LostAfter client_error

definition version :: "store \<Rightarrow> string \<Rightarrow> nat" where
  "version s k = fst (s k)"

definition holds :: "store \<Rightarrow> compare \<Rightarrow> bool" where
  "holds s c = (case c of VersionEquals k n \<Rightarrow> version s k = n)"

definition applyOp :: "op \<Rightarrow> store \<Rightarrow> store" where
  "applyOp o' s = (case o' of OpPut k v \<Rightarrow> s(k := (Suc (version s k), v)))"

definition storeTxn :: "compare list \<Rightarrow> op list \<Rightarrow> store \<Rightarrow> TxnResponse \<times> store" where
  "storeTxn cmps ops s =
     (if list_all (holds s) cmps
      then (\<lparr>Succeeded = True\<rparr>, fold applyOp ops s)
      else (\<lparr>Succeeded = False\<rparr>, s))"

definition storeDelete :: "string \<Rightarrow> store \<Rightarrow> DeleteResponse \<times> store" where
  "storeDelete k s =
     (if version s k = 0 then (\<lparr>Deleted = 0\<rparr>, s)
      else (\<lparr>Deleted = 1\<rparr>, s(k := (0, []))))"

text \<open>\<^verbatim>\<open>txn.Commit()\<close> and \<^verbatim>\<open>sdk.cli.Delete(ctx, path)\<close> as the client sees them.\<close>

definition Commit ::
  "transport \<Rightarrow> compare list \<Rightarrow> op list \<Rightarrow> etcd \<Rightarrow> (client_error + TxnResponse) \<times> etcd"
where
  "Commit tr cmps ops e =
     (let e1 = e\<lparr>journal := journal e @ [TxnRequest cmps ops]\<rparr> in
      case tr of
        LostBefore err \<Rightarrow> (Inl err, e1)
      | LostAfter err \<Rightarrow> (Inl err, e1\<lparr>content := snd (storeTxn cmps ops (content e))\<rparr>)
      | Delivered \<Rightarrow>
          (Inr (fst (storeTxn cmps ops (content e))),
           e1\<lparr>content := snd (storeTxn cmps ops (content e))\<rparr>))"

definition cliDelete ::
  "transport \<Rightarrow> string \<Rightarrow> etcd \<Rightarrow> (client_error + DeleteResponse) \<times> etcd"
where
  "cliDelete tr k e =
     (let e1 = e\<lparr>journal := journal e @ [DeleteRequest k]\<rparr> in
      case tr of
        LostBefore err \<Rightarrow> (Inl err, e1)
      | LostAfter err \<Rightarrow> (Inl err, e1\<lparr>content := snd (storeDelete k (content e))\<rparr>)
      | Delivered \<Rightarrow>
          (Inr (fst (storeDelete k (content e))),
           e1\<lparr>content := snd (storeDelete k (content e))\<rparr>))"

text \<open>\<^verbatim>\<open>Add\<close> (lines 167 to 191): the error returned (\<open>None\<close> is Go's \<^verbatim>\<open>nil\<close>) and the store.\<close>

definition Add :: "transport \<Rightarrow> string \<Rightarrow> string \<Rightarrow> etcd \<Rightarrow> error option \<times> etcd" where
  "Add tr path data' e =
     (case Commit tr [VersionEquals path 0] [OpPut path data'] e of
        (Inl err, e1) \<Rightarrow> (Some (ClientError err), e1)
      | (Inr txnResp, e1) \<Rightarrow>
          if \<not> Succeeded txnResp then (Some ERR_ADD_KEY, e1) else (None, e1))"

text \<open>\<^verbatim>\<open>Del\<close> (lines 205 to 213).\<close>

definition Del :: "transport \<Rightarrow> string \<Rightarrow> etcd \<Rightarrow> error option \<times> etcd" where
  "Del tr path e =
     (case cliDelete tr path e of
        (Inl err, e1) \<Rightarrow> (Some (ClientError err), e1)
      | (Inr _, e1) \<Rightarrow> (None, e1))"

section \<open>Members\<close>

text \<open>
  A member of the roster (\<^verbatim>\<open>etcdserverpb.Member\<close>) and the answer of a status probe
  (\<^verbatim>\<open>clientv3.StatusResponse\<close>) with the fields the source reads: the identifier of the
  member that answered (\<^verbatim>\<open>Header.MemberId\<close>), the identifier of the leader it reports,
  and the size of its database. Identifiers are unsigned 64-bit numbers; the source
  only prints and compares them.
\<close>

record RosterMember =
  rID :: nat
  rName :: string
  rPeerURLs :: "string list"
  rClientURLs :: "string list"

record StatusResponse =
  HeaderMemberId :: nat
  Leader :: nat
  StatusDbSize :: int

text \<open>
  Modelled from the spec: the struct \<^verbatim>\<open>model.Member\<close> and the constants
  \<^verbatim>\<open>model.ROLE_LEADER\<close>, \<^verbatim>\<open>model.ROLE_FOLLOWER\<close>, \<^verbatim>\<open>model.STATUS_HEALTHY\<close> and
  \<^verbatim>\<open>model.STATUS_UNHEALTHY\<close> are declared in the missing package \<^verbatim>\<open>model\<close>. The spec gives
  the member as \<^verbatim>\<open>{ id, name, peerURLs, clientURLs, role: Leader|Follower, status:
  Healthy|Unhealthy, dbSize: integer }\<close>; the field names are those the source writes.
\<close>

datatype role = ROLE_LEADER | ROLE_FOLLOWER

datatype status = STATUS_HEALTHY | STATUS_UNHEALTHY

record Member =
  ID :: string
  Name :: string
  PeerURLs :: "string list"
  ClientURLs :: "string list"
  Role :: role
  Status :: status
  DbSize :: int

text \<open>\<^verbatim>\<open>fmt.Sprint\<close> of an unsigned number: its decimal digits.\<close>

definition digit :: "nat \<Rightarrow> char" where
  "digit d = char_of (48 + d)"

fun Sprint :: "nat \<Rightarrow> string" where
  "Sprint n = (if n < 10 then [digit n] else Sprint (n div 10) @ [digit (n mod 10)])"

declare Sprint.simps [simp del]

text \<open>
  The loop of lines 223 to 246. Every probe runs under a context of its own, so the
  environment answers each endpoint by itself: with a status, or with an error (a passed
  deadline among them).
\<close>

fun membersLoop ::
  "(string \<Rightarrow> client_error + StatusResponse) \<Rightarrow> RosterMember list \<Rightarrow> Member list \<Rightarrow> Member list"
where
  "membersLoop probe [] members = members"
| "membersLoop probe (member # rest) members =
     (if length (rClientURLs member) > 0 then
        (let m = \<lparr>ID = Sprint (rID member), Name = rName member, PeerURLs = rPeerURLs member,
                  ClientURLs = rClientURLs member, Role = ROLE_FOLLOWER,
                  Status = STATUS_UNHEALTHY, DbSize = 0\<rparr>;
             m' = (case probe (ClientURLs m ! 0) of
                     Inl err \<Rightarrow> m
                   | Inr resp \<Rightarrow>
                       (let m1 = m\<lparr>Status := STATUS_HEALTHY, DbSize := StatusDbSize resp\<rparr>
                        in if Leader resp = HeaderMemberId resp then m1\<lparr>Role := ROLE_LEADER\<rparr>
                           else m1))
         in membersLoop probe rest (members @ [m']))
      else membersLoop probe rest members)"

text \<open>\<^verbatim>\<open>Members\<close> (lines 216 to 248); the roster is the answer of \<^verbatim>\<open>sdk.cli.MemberList(ctx)\<close>.\<close>

definition Members ::
  "(client_error + RosterMember list) \<Rightarrow> (string \<Rightarrow> client_error + StatusResponse)
   \<Rightarrow> error + Member list"
where
  "Members roster probe =
     (case roster of
        Inl err \<Rightarrow> Inl (ClientError err)
      | Inr members \<Rightarrow> Inr (membersLoop probe members []))"

section \<open>Go's string comparison\<close>

text \<open>
  \<^verbatim>\<open>a < b\<close> on Go strings compares byte by byte, a proper prefix being smaller. This is
  the comparison written out; it is the order \<open><\<close> of \<^typ>\<open>string\<close> that the sort uses
  (lemma \<open>bytesLess_less\<close>).
\<close>

fun bytesLess :: "string \<Rightarrow> string \<Rightarrow> bool" where
  "bytesLess [] [] = False"
| "bytesLess [] (y # ys) = True"
| "bytesLess (x # xs) [] = False"
| "bytesLess (x # xs) (y # ys) =
     (if (of_char x :: nat) < of_char y then True
      else if (of_char y :: nat) < of_char x then False
      else bytesLess xs ys)"

section \<open>The members' classification\<close>

text \<open>
  The classification in the words of the claim. A member \<open>m\<close> listed for the roster
  entry \<open>r\<close> carries the entry's identifier (printed), name and URLs; if the probe of
  the entry's first client endpoint fails, it is unhealthy, a follower, and its database
  size is 0; if the probe succeeds, it is healthy, its database size is the reported
  one, and it is the leader exactly when the leader that the probe reports is the
  member's own identifier, and a follower otherwise.
\<close>

definition classified ::
  "(string \<Rightarrow> client_error + StatusResponse) \<Rightarrow> RosterMember \<Rightarrow> Member \<Rightarrow> bool"
where
  "classified probe r m =
     (ID m = Sprint (rID r) \<and> Name m = rName r \<and> PeerURLs m = rPeerURLs r
      \<and> ClientURLs m = rClientURLs r
      \<and> (case probe (rClientURLs r ! 0) of
            Inl err \<Rightarrow> Status m = STATUS_UNHEALTHY \<and> Role m = ROLE_FOLLOWER \<and> DbSize m = 0
          | Inr st \<Rightarrow>
              Status m = STATUS_HEALTHY \<and> DbSize m = StatusDbSize st
              \<and> (Role m = ROLE_LEADER) = (Leader st = rID r)
              \<and> (Role m = ROLE_FOLLOWER) = (Leader st \<noteq> rID r)))"

text \<open>
  The same classification with the one change that the code calls for: the leader that
  the probe reports is compared with the identifier of the member that answered the
  probe, which the header of the answer carries.
\<close>

definition classifiedByAnswer ::
  "(string \<Rightarrow> client_error + StatusResponse) \<Rightarrow> RosterMember \<Rightarrow> Member \<Rightarrow> bool"
where
  "classifiedByAnswer probe r m =
     (ID m = Sprint (rID r) \<and> Name m = rName r \<and> PeerURLs m = rPeerURLs r
      \<and> ClientURLs m = rClientURLs r
      \<and> (case probe (rClientURLs r ! 0) of
            Inl err \<Rightarrow> Status m = STATUS_UNHEALTHY \<and> Role m = ROLE_FOLLOWER \<and> DbSize m = 0
          | Inr st \<Rightarrow>
              Status m = STATUS_HEALTHY \<and> DbSize m = StatusDbSize st
              \<and> (Role m = ROLE_LEADER) = (Leader st = HeaderMemberId st)
              \<and> (Role m = ROLE_FOLLOWER) = (Leader st \<noteq> HeaderMemberId st)))"

text \<open>
  Every probe that is answered is answered by the member that was probed: the header of
  the answer carries the identifier of the roster entry whose endpoint it is.
\<close>

definition answeredBySelf ::
  "(string \<Rightarrow> client_error + StatusResponse) \<Rightarrow> RosterMember list \<Rightarrow> bool"
where
  "answeredBySelf probe roster =
     list_all (\<lambda>r. rClientURLs r = []
                  \<or> (case probe (rClientURLs r ! 0) of
                        Inl err \<Rightarrow> True
                      | Inr st \<Rightarrow> HeaderMemberId st = rID r)) roster"

section \<open>Concrete inputs\<close>

text \<open>
  A scan result under the prefix \<^verbatim>\<open>/a\<close>: a leaf, two keys below the same directory,
  and the prefix itself.
\<close>

definition scanA :: "KeyValue list" where
  "scanA = [\<lparr>Key = ''/a/b'', KvValue = ''''\<rparr>, \<lparr>Key = ''/a/c/d'', KvValue = ''''\<rparr>,
            \<lparr>Key = ''/a'', KvValue = ''''\<rparr>, \<lparr>Key = ''/a/c/e'', KvValue = ''''\<rparr>]"

definition nodeAB :: Node where
  "nodeAB = \<lparr>Path = ''/a/b'', Value = '''', IsDir = False\<rparr>"

definition nodeAC :: Node where
  "nodeAC = \<lparr>Path = ''/a/c'', Value = '''', IsDir = True\<rparr>"

text \<open>
  The example of the spec's section 8: the store holds \<^verbatim>\<open>/a/b\<close> with the value
  \<^verbatim>\<open>1\<close> and \<^verbatim>\<open>/a/c/d\<close> with the value \<^verbatim>\<open>2\<close>, and \<^verbatim>\<open>/a\<close> is listed. The
  keys-only scan answers with the two keys (here not in order), the fetch of \<^verbatim>\<open>/a/b\<close>
  with its value, and the fetch of \<^verbatim>\<open>/a/c\<close>, which is no key of the store, with
  nothing. Every call takes a millisecond.
\<close>

definition world0 :: world where
  "world0 = \<lparr>now = 0, sent = [], printed = []\<rparr>"

definition scanAnswer :: GetResponse where
  "scanAnswer = \<lparr>Kvs = [\<lparr>Key = ''/a/c/d'', KvValue = ''''\<rparr>, \<lparr>Key = ''/a/b'', KvValue = ''''\<rparr>],
                 Count = 2\<rparr>"

definition netExample :: "nat \<Rightarrow> call" where
  "netExample i =
     (if i = 0 then \<lparr>latency = 1000000, answer = Inr scanAnswer\<rparr>
      else if i = 1 then
        \<lparr>latency = 1000000,
         answer = Inr \<lparr>Kvs = [\<lparr>Key = ''/a/b'', KvValue = ''1''\<rparr>], Count = 1\<rparr>\<rparr>
      else \<lparr>latency = 1000000, answer = Inr \<lparr>Kvs = [], Count = 0\<rparr>\<rparr>)"

text \<open>
  The same store behind a slow network: the scan is answered after a millisecond, the
  first fetch would take six seconds.
\<close>

definition netSlow :: "nat \<Rightarrow> call" where
  "netSlow i =
     (if i = 0 then \<lparr>latency = 1000000, answer = Inr scanAnswer\<rparr>
      else if i = 1 then
        \<lparr>latency = 6000000000,
         answer = Inr \<lparr>Kvs = [\<lparr>Key = ''/a/b'', KvValue = ''1''\<rparr>], Count = 1\<rparr>\<rparr>
      else \<lparr>latency = 1000000, answer = Inr \<lparr>Kvs = [], Count = 0\<rparr>\<rparr>)"

text \<open>
  A network on which the scan and the first fetch are answered after a millisecond each
  and the second fetch would take six seconds.
\<close>

definition netSlowSecond :: "nat \<Rightarrow> call" where
  "netSlowSecond i =
     (if i = 0 then \<lparr>latency = 1000000, answer = Inr scanAnswer\<rparr>
      else if i = 1 then
        \<lparr>latency = 1000000,
         answer = Inr \<lparr>Kvs = [\<lparr>Key = ''/a/b'', KvValue = ''1''\<rparr>], Count = 1\<rparr>\<rparr>
      else \<lparr>latency = 6000000000, answer = Inr \<lparr>Kvs = [], Count = 0\<rparr>\<rparr>)"

text \<open>A network on which the scan itself takes six seconds, and one that finds nothing.\<close>

definition netDead :: "nat \<Rightarrow> call" where
  "netDead i = \<lparr>latency = 6000000000, answer = Inr scanAnswer\<rparr>"

definition netEmpty :: "nat \<Rightarrow> call" where
  "netEmpty i = \<lparr>latency = 1000000, answer = Inr \<lparr>Kvs = [], Count = 0\<rparr>\<rparr>"

text \<open>
  A converter that makes the leaf of every pair. It stands for the missing converter
  where a run of \<^verbatim>\<open>Val\<close> needs a concrete one: section 4.2 of the spec has \<^verbatim>\<open>get\<close>
  convert the single pair of its fetch to a node.
\<close>

definition leafConverter :: "string \<Rightarrow> KeyValue list \<Rightarrow> error + Node list" where
  "leafConverter p kvs =
     Inr (map (\<lambda>kv. \<lparr>Path = Key kv, Value = KvValue kv, IsDir = False\<rparr>) kvs)"

text \<open>A network that answers every fetch with one pair.\<close>

definition netOne :: "string \<Rightarrow> string \<Rightarrow> nat \<Rightarrow> call" where
  "netOne k v i = \<lparr>latency = 1000000, answer = Inr \<lparr>Kvs = [\<lparr>Key = k, KvValue = v\<rparr>], Count = 1\<rparr>\<rparr>"

text \<open>An empty store, and a store that holds one key below \<^verbatim>\<open>/dir\<close> and nothing at \<^verbatim>\<open>/dir\<close>.\<close>

definition etcd0 :: etcd where
  "etcd0 = \<lparr>content = (\<lambda>k. (0, [])), journal = []\<rparr>"

definition etcdDir :: etcd where
  "etcdDir = \<lparr>content = (\<lambda>k. if k = ''/dir/child'' then (1, ''x'') else (0, [])), journal = []\<rparr>"

text \<open>
  A roster of three: member 1 answers its probe and reports itself as the leader, member
  2 advertises no client endpoint, member 3 does not answer.
\<close>

definition roster3 :: "RosterMember list" where
  "roster3 =
     [\<lparr>rID = 1, rName = ''n1'', rPeerURLs = [''p1''], rClientURLs = [''c1'']\<rparr>,
      \<lparr>rID = 2, rName = ''n2'', rPeerURLs = [''p2''], rClientURLs = []\<rparr>,
      \<lparr>rID = 3, rName = ''n3'', rPeerURLs = [''p3''], rClientURLs = [''c3'']\<rparr>]"

definition probe3 :: "string \<Rightarrow> client_error + StatusResponse" where
  "probe3 url =
     (if url = ''c1'' then Inr \<lparr>HeaderMemberId = 1, Leader = 1, StatusDbSize = 4096\<rparr>
      else Inl DeadlineExceeded)"

text \<open>
  A roster of one, member 7, whose client endpoint is shared: the probe sent there is
  answered by member 9, which reports itself as the leader.
\<close>

definition rosterShared :: "RosterMember list" where
  "rosterShared = [\<lparr>rID = 7, rName = ''n7'', rPeerURLs = [''p7''], rClientURLs = [''lb'']\<rparr>]"

definition probeShared :: "string \<Rightarrow> client_error + StatusResponse" where
  "probeShared url = Inr \<lparr>HeaderMemberId = 9, Leader = 9, StatusDbSize = 4096\<rparr>"

definition memberShared :: Member where
  "memberShared = \<lparr>ID = ''7'', Name = ''n7'', PeerURLs = [''p7''], ClientURLs = [''lb''],
                    Role = ROLE_LEADER, Status = STATUS_HEALTHY, DbSize = 4096\<rparr>"

section \<open>The path converter: one level, no duplicates\<close>

lemma splitSep_not_Nil: "splitSep s \<noteq> []"
  by (induction s) auto

lemma splitSep_append_sep: "splitSep (a @ sep # b) = splitSep a @ splitSep b"
  by (induction a) (auto simp: splitSep_not_Nil)

lemma splitSep_no_sep: "sep \<notin> set s \<Longrightarrow> splitSep s = [s]"
  by (induction s) auto

lemma segments_Nil: "segments [] = []"
  by (simp add: segments_def)

lemma segments_append_sep: "segments (a @ sep # b) = segments a @ segments b"
  by (simp add: segments_def splitSep_append_sep)

lemma segments_name: "name \<noteq> [] \<Longrightarrow> sep \<notin> set name \<Longrightarrow> segments name = [name]"
  by (simp add: segments_def splitSep_no_sep)

text \<open>A path as a directory ends with the separator and has the path's segments.\<close>

lemma asDirectory_ends: "\<exists>d. asDirectory p = d @ [sep] \<and> segments d = segments p"
proof (cases "p \<noteq> [] \<and> last p = sep")
  case True
  then have p: "p = butlast p @ [sep]"
    by (metis append_butlast_last_id)
  have "segments (butlast p @ sep # []) = segments (butlast p) @ segments []"
    by (rule segments_append_sep)
  then have "segments p = segments (butlast p)"
    using p by (simp add: segments_Nil)
  then show ?thesis using True p by (auto simp: asDirectory_def)
next
  case False
  then show ?thesis by (auto simp: asDirectory_def)
qed

text \<open>
  A key that continues the path \<open>p\<close> is \<open>p\<close> as a directory, then a name, then
  nothing or a separator and more.
\<close>

lemma continuesPath_shape:
  assumes "continuesPath p k"
  obtains name rest where "k = asDirectory p @ name @ rest" "name \<noteq> []" "sep \<notin> set name"
    "rest = [] \<or> hd rest = sep"
    "name = takeWhile (\<lambda>c. c \<noteq> sep) (drop (length (asDirectory p)) k)"
proof -
  let ?r = "drop (length (asDirectory p)) k"
  let ?name = "takeWhile (\<lambda>c. c \<noteq> sep) ?r"
  let ?rest = "dropWhile (\<lambda>c. c \<noteq> sep) ?r"
  have pre: "prefix (asDirectory p) k" and r: "?r \<noteq> []" "hd ?r \<noteq> sep"
    using assms by (auto simp: continuesPath_def split: list.splits)
  have k: "k = asDirectory p @ ?name @ ?rest"
    using pre by (auto simp: prefix_def)
  have n: "?name \<noteq> []"
    using r by (cases ?r) auto
  have s: "sep \<notin> set ?name"
    by (auto dest: set_takeWhileD)
  have t: "?rest = [] \<or> hd ?rest = sep"
    using hd_dropWhile[of "\<lambda>c. c \<noteq> sep" ?r] by auto
  show ?thesis using that[OF k n s t] by simp
qed

lemma segments_name_rest:
  assumes "name \<noteq> []" "sep \<notin> set name" "rest = [] \<or> hd rest = sep"
  shows "\<exists>more. segments (name @ rest) = name # more"
proof (cases rest)
  case Nil
  then show ?thesis using assms by (simp add: segments_name)
next
  case (Cons c cs)
  then have "rest = sep # cs" using assms(3) by simp
  then have "segments (name @ rest) = segments name @ segments cs"
    by (simp add: segments_append_sep)
  then show ?thesis using assms by (simp add: segments_name)
qed

lemma continuesPath_segments:
  assumes "continuesPath p k"
  shows "firstSegmentAfter p k
           = Some (takeWhile (\<lambda>c. c \<noteq> sep) (drop (length (asDirectory p)) k))"
    and "segments (asDirectory p @ takeWhile (\<lambda>c. c \<noteq> sep) (drop (length (asDirectory p)) k))
           = segments p @ [takeWhile (\<lambda>c. c \<noteq> sep) (drop (length (asDirectory p)) k)]"
proof -
  obtain name rest where k: "k = asDirectory p @ name @ rest" and n: "name \<noteq> []" "sep \<notin> set name"
    and t: "rest = [] \<or> hd rest = sep"
    and nm: "name = takeWhile (\<lambda>c. c \<noteq> sep) (drop (length (asDirectory p)) k)"
    using continuesPath_shape[OF assms] by blast
  obtain d where d: "asDirectory p = d @ [sep]" "segments d = segments p"
    using asDirectory_ends by blast
  obtain more where m: "segments (name @ rest) = name # more"
    using segments_name_rest[OF n t] by blast
  have "k = d @ sep # (name @ rest)" using k d by simp
  then have "segments k = segments p @ name # more"
    using segments_append_sep[of d "name @ rest"] d m by simp
  then show "firstSegmentAfter p k
           = Some (takeWhile (\<lambda>c. c \<noteq> sep) (drop (length (asDirectory p)) k))"
    using nm by (simp add: firstSegmentAfter_def)
  have "asDirectory p @ name = d @ sep # name" using d by simp
  then have "segments (asDirectory p @ name) = segments p @ [name]"
    using segments_append_sep[of d name] d n by (simp add: segments_name)
  then show "segments (asDirectory p @ takeWhile (\<lambda>c. c \<noteq> sep) (drop (length (asDirectory p)) k))
           = segments p @ [takeWhile (\<lambda>c. c \<noteq> sep) (drop (length (asDirectory p)) k)]"
    using nm by simp
qed

lemma firstSegmentAfter_self: "firstSegmentAfter p p = None"
  by (simp add: firstSegmentAfter_def)

text \<open>What the converter makes of a key that continues the path: the directory and the name.\<close>

lemma entryNode_child:
  assumes "continuesPath p k"
  shows "\<exists>n. entryNode p k v = Some n
           \<and> Path n = asDirectory p @ takeWhile (\<lambda>c. c \<noteq> sep) (drop (length (asDirectory p)) k)"
proof -
  obtain name rest where k: "k = asDirectory p @ name @ rest" and n: "name \<noteq> []" "sep \<notin> set name"
    and t: "rest = [] \<or> hd rest = sep"
    and nm: "name = takeWhile (\<lambda>c. c \<noteq> sep) (drop (length (asDirectory p)) k)"
    using continuesPath_shape[OF assms] by blast
  obtain c cs where name: "name = c # cs" "c \<noteq> sep" "sep \<notin> set cs"
    using n by (cases name) auto
  have tw: "takeWhile (\<lambda>x. x \<noteq> sep) (cs @ rest) = cs"
  proof (cases rest)
    case Nil
    then show ?thesis using name by (auto simp: takeWhile_eq_all_conv)
  next
    case (Cons x xs)
    then have "rest = sep # xs" using t by simp
    then show ?thesis using name by (auto simp: takeWhile_tail)
  qed
  have inrest: "sep \<in> set rest \<longleftrightarrow> rest \<noteq> []"
    using t by (cases rest) auto
  show ?thesis
  proof (cases "p \<noteq> [] \<and> last p = sep")
    case True
    then have dir: "asDirectory p = p" by (simp add: asDirectory_def)
    then have k': "k = p @ c # cs @ rest" using k name by simp
    then have "stripPrefix p k = c # cs @ rest" by (simp add: stripPrefix_def)
    then show ?thesis
      using name tw inrest k' dir nm by (auto simp: entryNode_def Let_def)
  next
    case False
    then have dir: "asDirectory p = p @ [sep]" by (simp add: asDirectory_def)
    then have k': "k = p @ sep # c # cs @ rest" using k name by simp
    then have "stripPrefix p k = sep # c # cs @ rest" by (simp add: stripPrefix_def)
    then show ?thesis
      using name tw inrest k' dir nm by (auto simp: entryNode_def Let_def)
  qed
qed

lemma entryNode_None: "entryNode p k v = None \<longleftrightarrow> stripPrefix p k = []"
  by (auto simp: entryNode_def Let_def)

lemma entryNode_self: "entryNode p p v = None"
  by (simp add: entryNode_def stripPrefix_def)

lemma addNode_distinct: "distinct (map Path acc) \<Longrightarrow> distinct (map Path (addNode acc n))"
  by (auto simp: addNode_def)

lemma addNode_paths: "Path ` set (addNode acc n) = insert (Path n) (Path ` set acc)"
  by (auto simp: addNode_def)

lemma convertLoop_distinct:
  "convertLoop dec p S acc = Inr nodes \<Longrightarrow> distinct (map Path acc) \<Longrightarrow> distinct (map Path nodes)"
proof (induction S arbitrary: acc)
  case Nil
  then show ?case by simp
next
  case (Cons kv S)
  then show ?case
    by (auto split: option.splits intro: addNode_distinct)
qed

lemma convertLoop_paths:
  "convertLoop dec p S acc = Inr nodes \<Longrightarrow>
   \<forall>k \<in> set (keysOf dec S). k = p \<or> continuesPath p k \<Longrightarrow>
   set (map Path nodes) = set (map Path acc)
     \<union> (\<lambda>k. asDirectory p @ takeWhile (\<lambda>c. c \<noteq> sep) (drop (length (asDirectory p)) k))
         ` {k \<in> set (keysOf dec S). k \<noteq> p}"
proof (induction S arbitrary: acc)
  case Nil
  then show ?case by (simp add: keysOf_def)
next
  case (Cons kv S)
  show ?case
  proof (cases "dec (Key kv)")
    case None
    with Cons.prems show ?thesis by simp
  next
    case (Some k)
    have ks: "keysOf dec (kv # S) = k # keysOf dec S"
      using Some by (simp add: keysOf_def)
    have pk: "k = p \<or> continuesPath p k"
      and rest: "\<forall>k \<in> set (keysOf dec S). k = p \<or> continuesPath p k"
      using Cons.prems(2) ks by auto
    show ?thesis
    proof (cases "k = p")
      case True
      then have "convertLoop dec p S acc = Inr nodes"
        using Cons.prems(1) Some by (simp add: entryNode_self)
      then show ?thesis
        using Cons.IH[OF _ rest] ks True by auto
    next
      case False
      then have c: "continuesPath p k" using pk by simp
      obtain n where n: "entryNode p k (KvValue kv) = Some n"
        "Path n = asDirectory p @ takeWhile (\<lambda>c. c \<noteq> sep) (drop (length (asDirectory p)) k)"
        using entryNode_child[OF c] by blast
      have step: "convertLoop dec p S (addNode acc n) = Inr nodes"
        using Cons.prems(1) Some n(1) by simp
      show ?thesis
        using Cons.IH[OF step rest] ks False n(2) by (auto simp: addNode_paths)
    qed
  qed
qed

lemma convertLoop_skip_self:
  "convertLoop dec p (filter (\<lambda>kv. dec (Key kv) \<noteq> Some p) S) acc = convertLoop dec p S acc"
  by (induction S arbitrary: acc) (auto simp: entryNode_self split: option.splits)

lemma firstSegments_continued:
  "\<forall>k \<in> set ks. k = p \<or> continuesPath p k \<Longrightarrow>
   firstSegments p ks
     = (\<lambda>k. takeWhile (\<lambda>c. c \<noteq> sep) (drop (length (asDirectory p)) k)) ` {k \<in> set ks. k \<noteq> p}"
proof (induction ks)
  case Nil
  then show ?case by (simp add: firstSegments_def)
next
  case (Cons k ks)
  then have ih: "firstSegments p ks
     = (\<lambda>k. takeWhile (\<lambda>c. c \<noteq> sep) (drop (length (asDirectory p)) k)) ` {k \<in> set ks. k \<noteq> p}"
    by simp
  show ?case
  proof (cases "k = p")
    case True
    then show ?thesis
      using ih by (auto simp: firstSegments_def firstSegmentAfter_self)
  next
    case False
    then have "continuesPath p k" using Cons.prems by simp
    then have "firstSegmentAfter p k
           = Some (takeWhile (\<lambda>c. c \<noteq> sep) (drop (length (asDirectory p)) k))"
      by (rule continuesPath_segments(1))
    then show ?thesis
      using ih False by (auto simp: firstSegments_def)
  qed
qed

lemma scanA_converted: "ConvertToPath Some ''/a'' scanA = Inr [nodeAB, nodeAC]"
  by (simp add: scanA_def nodeAB_def nodeAC_def ConvertToPath_def entryNode_def
      stripPrefix_def addNode_def sep_def)

lemma scanA_under: "\<forall>k \<in> set (keysOf Some scanA). k = ''/a'' \<or> continuesPath ''/a'' k"
  by (simp add: scanA_def keysOf_def continuesPath_def asDirectory_def sep_def)

text \<open>
  Claim C1, as stated, fails. A prefix scan under \<^verbatim>\<open>/a\<close> also finds the key \<^verbatim>\<open>/ab\<close>,
  and the converter makes of it the leaf \<^verbatim>\<open>/ab\<close>, which lies beside \<^verbatim>\<open>/a\<close> and not
  one segment below it. It finds the key \<^verbatim>\<open>/a/\<close> as well, whose remainder is not
  empty, and makes of it the leaf \<^verbatim>\<open>/a/\<close>, which has the segments of \<^verbatim>\<open>/a\<close> itself.
\<close>

theorem ConvertToPath_sibling_listed:
  "prefix ''/a'' ''/ab''
   \<and> ConvertToPath Some ''/a'' [\<lparr>Key = ''/ab'', KvValue = ''''\<rparr>]
       = Inr [\<lparr>Path = ''/ab'', Value = '''', IsDir = False\<rparr>]
   \<and> \<not> oneSegmentDeeper ''/a'' ''/ab''
   \<and> prefix ''/a'' ''/a/''
   \<and> ConvertToPath Some ''/a'' [\<lparr>Key = ''/a/'', KvValue = ''''\<rparr>]
       = Inr [\<lparr>Path = ''/a/'', Value = '''', IsDir = False\<rparr>]
   \<and> \<not> oneSegmentDeeper ''/a'' ''/a/''"
  by (simp add: ConvertToPath_def entryNode_def stripPrefix_def addNode_def sep_def
      oneSegmentDeeper_def segments_def)

text \<open>
  Claim C1, amended. Let the converter succeed on the entries \<open>S\<close> scanned under the
  prefix \<open>p\<close>, and let every key of \<open>S\<close> be \<open>p\<close> itself or continue \<open>p\<close> as a path
  (after \<open>p\<close>, and the separator unless \<open>p\<close> ends with it, comes a segment that is
  not empty). Then the paths of the nodes are pairwise distinct; every path lies exactly
  one segment below \<open>p\<close>; taking the last segment is a bijection from the paths of the
  nodes onto the distinct first segments after \<open>p\<close> that occur in \<open>S\<close>, so there are
  as many nodes as such segments; and an entry whose key is \<open>p\<close> itself yields no
  node: alone it is converted to the empty list, \<open>p\<close> is not among the paths, and
  the result is the same with those entries left out.
\<close>

theorem ConvertToPath_one_level:
  assumes conv: "ConvertToPath dec p S = Inr nodes"
    and under: "\<forall>k \<in> set (keysOf dec S). k = p \<or> continuesPath p k"
  shows "distinct (map Path nodes)
       \<and> (\<forall>n \<in> set nodes. oneSegmentDeeper p (Path n))
       \<and> bij_betw (\<lambda>q. last (segments q)) (set (map Path nodes)) (firstSegments p (keysOf dec S))
       \<and> length nodes = card (firstSegments p (keysOf dec S))
       \<and> (\<forall>kv. dec (Key kv) = Some p \<longrightarrow> ConvertToPath dec p [kv] = Inr [])
       \<and> p \<notin> set (map Path nodes)
       \<and> ConvertToPath dec p (filter (\<lambda>kv. dec (Key kv) \<noteq> Some p) S) = Inr nodes"
proof -
  let ?name = "\<lambda>k. takeWhile (\<lambda>c. c \<noteq> sep) (drop (length (asDirectory p)) k)"
  let ?K = "{k \<in> set (keysOf dec S). k \<noteq> p}"
  have loop: "convertLoop dec p S [] = Inr nodes"
    using conv by (simp add: ConvertToPath_def)
  have d: "distinct (map Path nodes)"
    using convertLoop_distinct[OF loop] by simp
  have paths: "set (map Path nodes) = (\<lambda>k. asDirectory p @ ?name k) ` ?K"
    using convertLoop_paths[OF loop under] by simp
  have names: "firstSegments p (keysOf dec S) = ?name ` ?K"
    using firstSegments_continued[OF under] .
  have cont: "continuesPath p k" if "k \<in> ?K" for k
    using that under by auto
  have segs: "segments (asDirectory p @ ?name k) = segments p @ [?name k]" if "k \<in> ?K" for k
    using continuesPath_segments(2)[OF cont[OF that]] .
  have deeper: "\<forall>n \<in> set nodes. oneSegmentDeeper p (Path n)"
  proof
    fix n assume "n \<in> set nodes"
    then have "Path n \<in> (\<lambda>k. asDirectory p @ ?name k) ` ?K"
      using paths by auto
    then obtain k where "k \<in> ?K" "Path n = asDirectory p @ ?name k"
      by blast
    then show "oneSegmentDeeper p (Path n)"
      using segs by (simp add: oneSegmentDeeper_def)
  qed
  have bij: "bij_betw (\<lambda>q. last (segments q)) (set (map Path nodes))
               (firstSegments p (keysOf dec S))"
    unfolding paths names
  proof (rule bij_betw_byWitness[where f' = "\<lambda>s. asDirectory p @ s"])
    show "\<forall>q \<in> (\<lambda>k. asDirectory p @ ?name k) ` ?K. asDirectory p @ last (segments q) = q"
      using segs by auto
    show "\<forall>s \<in> ?name ` ?K. last (segments (asDirectory p @ s)) = s"
      using segs by auto
    show "(\<lambda>q. last (segments q)) ` (\<lambda>k. asDirectory p @ ?name k) ` ?K \<subseteq> ?name ` ?K"
      using segs by auto
    show "(\<lambda>s. asDirectory p @ s) ` ?name ` ?K \<subseteq> (\<lambda>k. asDirectory p @ ?name k) ` ?K"
      by auto
  qed
  have "card (set (map Path nodes)) = length (map Path nodes)"
    using d by (rule distinct_card)
  then have len: "length nodes = card (firstSegments p (keysOf dec S))"
    using bij_betw_same_card[OF bij] by simp
  have self: "\<forall>kv. dec (Key kv) = Some p \<longrightarrow> ConvertToPath dec p [kv] = Inr []"
    by (simp add: ConvertToPath_def entryNode_self)
  have notself: "p \<notin> set (map Path nodes)"
  proof
    assume "p \<in> set (map Path nodes)"
    then obtain n where "n \<in> set nodes" "Path n = p" by auto
    with deeper have "oneSegmentDeeper p p" by auto
    then show False by (simp add: oneSegmentDeeper_def)
  qed
  have "ConvertToPath dec p (filter (\<lambda>kv. dec (Key kv) \<noteq> Some p) S) = Inr nodes"
    using loop by (simp add: ConvertToPath_def convertLoop_skip_self)
  with d deeper bij len self notself show ?thesis by blast
qed

theorem ConvertToPath_one_level_witness:
  "distinct (map Path [nodeAB, nodeAC])
   \<and> oneSegmentDeeper ''/a'' (Path nodeAB) \<and> oneSegmentDeeper ''/a'' (Path nodeAC)
   \<and> bij_betw (\<lambda>q. last (segments q)) {''/a/b'', ''/a/c''} (firstSegments ''/a'' (keysOf Some scanA))
   \<and> card (firstSegments ''/a'' (keysOf Some scanA)) = 2
   \<and> firstSegments ''/a'' (keysOf Some scanA) = {''b'', ''c''}
   \<and> ConvertToPath Some ''/a'' [\<lparr>Key = ''/a'', KvValue = ''''\<rparr>] = Inr []
   \<and> ConvertToPath Some ''/a'' (filter (\<lambda>kv. Key kv \<noteq> ''/a'') scanA) = Inr [nodeAB, nodeAC]"
proof -
  have names: "firstSegments ''/a'' (keysOf Some scanA) = {''b'', ''c''}"
    by (simp add: firstSegments_def firstSegmentAfter_def keysOf_def scanA_def segments_def sep_def)
  show ?thesis
    using ConvertToPath_one_level[OF scanA_converted scanA_under] names
    by (simp add: nodeAB_def nodeAC_def)
qed

section \<open>List: what the loop keeps and what it sends\<close>

lemma bytesLess_less: "bytesLess a b \<longleftrightarrow> a < b"
proof (induction a b rule: bytesLess.induct)
  case (4 x xs y ys)
  have "(of_char x :: nat) < of_char y \<longleftrightarrow> x < y"
    by (simp add: less_char_def)
  moreover have "(of_char y :: nat) < of_char x \<longleftrightarrow> y < x"
    by (simp add: less_char_def)
  ultimately show ?case using 4 by auto
qed simp_all

lemma cliGet_sent: "sent (snd (cliGet net ctx rq w)) = sent w @ [(ctx, rq)]"
  by (simp add: cliGet_def Let_def)

lemma cliGet_printed: "printed (snd (cliGet net ctx rq w)) = printed w"
  by (simp add: cliGet_def Let_def)

lemma cliGet_late:
  "ctx \<le> now w + latency (net (length (sent w))) \<Longrightarrow>
   fst (cliGet net ctx rq w) = Inl DeadlineExceeded"
  by (simp add: cliGet_def Let_def)

lemma fillValues_Path_eq:
  "fillValues net ctx vs w = (vs', w') \<Longrightarrow> map Path vs' = map Path vs"
  by (induction vs arbitrary: w vs' w') (auto split: prod.splits sum.splits)

lemma fillValues_Path: "map Path (fst (fillValues net ctx vs w)) = map Path vs"
  using fillValues_Path_eq[of net ctx vs w] by (cases "fillValues net ctx vs w") simp

lemma fillValues_IsDir_eq:
  "fillValues net ctx vs w = (vs', w') \<Longrightarrow> map IsDir vs' = map IsDir vs"
  by (induction vs arbitrary: w vs' w') (auto split: prod.splits sum.splits)

lemma fillValues_IsDir: "map IsDir (fst (fillValues net ctx vs w)) = map IsDir vs"
  using fillValues_IsDir_eq[of net ctx vs w] by (cases "fillValues net ctx vs w") simp

lemma fillValues_sent_eq:
  "fillValues net ctx vs w = (vs', w') \<Longrightarrow>
   sent w' = sent w @ map (\<lambda>v. (ctx, GetKey (Path v))) vs"
proof (induction vs arbitrary: w vs' w')
  case Nil
  then show ?case by simp
next
  case (Cons v vs)
  obtain r w1 where g: "cliGet net ctx (GetKey (Path v)) w = (r, w1)"
    by (cases "cliGet net ctx (GetKey (Path v)) w")
  have s1: "sent w1 = sent w @ [(ctx, GetKey (Path v))]"
    using cliGet_sent[of net ctx "GetKey (Path v)" w] g by simp
  show ?case
  proof (cases r)
    case (Inl err)
    obtain us w2 where f: "fillValues net ctx vs (w1\<lparr>printed := printed w1 @ [readValueError]\<rparr>) = (us, w2)"
      by (cases "fillValues net ctx vs (w1\<lparr>printed := printed w1 @ [readValueError]\<rparr>)")
    have "w' = w2" using Cons.prems g Inl f by simp
    then show ?thesis using Cons.IH[OF f] s1 by simp
  next
    case (Inr rv)
    obtain us w2 where f: "fillValues net ctx vs w1 = (us, w2)"
      by (cases "fillValues net ctx vs w1")
    have "w' = w2" using Cons.prems g Inr f by (simp add: Let_def)
    then show ?thesis using Cons.IH[OF f] s1 by simp
  qed
qed

lemma fillValues_sent:
  "sent (snd (fillValues net ctx vs w)) = sent w @ map (\<lambda>v. (ctx, GetKey (Path v))) vs"
  using fillValues_sent_eq[of net ctx vs w] by (cases "fillValues net ctx vs w") simp

text \<open>
  One failed fetch: the line is logged, the node stays in the list as it was, and the
  loop goes on with the nodes after it.
\<close>

lemma fillValues_failed_fetch:
  assumes "cliGet net ctx (GetKey (Path v)) w = (Inl err, w1)"
  shows "fillValues net ctx (v # vs) w
         = (v # fst (fillValues net ctx vs (w1\<lparr>printed := printed w1 @ [readValueError]\<rparr>)),
            snd (fillValues net ctx vs (w1\<lparr>printed := printed w1 @ [readValueError]\<rparr>)))"
  using assms by (simp split: prod.splits)

lemma sorted_sort_key_Path: "sorted (map Path (sort_key Path l))"
  by (rule sorted_sort_key)

lemma List_paths_sorted: "sorted (map Path (fst (fst (List conv net path w))))"
  by (auto simp: List_def Let_def sorted_sort_key_Path
      split: prod.splits sum.splits dest!: fillValues_Path_eq)

lemma cliGet_expired_eq:
  "ctx \<le> now w \<Longrightarrow>
   cliGet net ctx rq w = (Inl DeadlineExceeded, w\<lparr>sent := sent w @ [(ctx, rq)]\<rparr>)"
  by (simp add: cliGet_def Let_def max_def)

lemma fillValues_expired:
  "fillValues net ctx vs w = (vs', w') \<Longrightarrow> ctx \<le> now w \<Longrightarrow>
   vs' = vs \<and> printed w' = printed w @ replicate (length vs) readValueError"
proof (induction vs arbitrary: w vs' w')
  case Nil
  then show ?case by simp
next
  case (Cons v vs)
  let ?w1 = "w\<lparr>sent := sent w @ [(ctx, GetKey (Path v))], printed := printed w @ [readValueError]\<rparr>"
  obtain us w2 where f: "fillValues net ctx vs ?w1 = (us, w2)"
    by (cases "fillValues net ctx vs ?w1")
  have "ctx \<le> now ?w1" using Cons.prems(2) by simp
  from Cons.IH[OF f this] have "us = vs" "printed w2 = printed w @ readValueError # replicate (length vs) readValueError"
    by simp_all
  moreover have "vs' = v # us" "w' = w2"
    using Cons.prems f by (simp_all add: cliGet_expired_eq)
  ultimately show ?case by simp
qed

lemma fillValues_late:
  assumes f: "fillValues net ctx vs w = (vs', w')"
    and late: "ctx \<le> now w + latency (net (length (sent w)))"
  shows "vs' = vs \<and> printed w' = printed w @ replicate (length vs) readValueError"
proof (cases vs)
  case Nil
  then show ?thesis using f by simp
next
  case (Cons v us)
  let ?w1 = "w\<lparr>sent := sent w @ [(ctx, GetKey (Path v))], now := max (now w) ctx,
               printed := printed w @ [readValueError]\<rparr>"
  have g: "cliGet net ctx (GetKey (Path v)) w
           = (Inl DeadlineExceeded, w\<lparr>sent := sent w @ [(ctx, GetKey (Path v))], now := max (now w) ctx\<rparr>)"
    using late by (simp add: cliGet_def Let_def)
  obtain us' w2 where r: "fillValues net ctx us ?w1 = (us', w2)"
    by (cases "fillValues net ctx us ?w1")
  have "ctx \<le> now ?w1" by simp
  from fillValues_expired[OF r this] have "us' = us"
    "printed w2 = printed w @ readValueError # replicate (length us) readValueError"
    by simp_all
  moreover have "vs' = v # us'" "w' = w2"
    using f Cons g r by simp_all
  ultimately show ?thesis using Cons by simp
qed

lemma List_converted:
  assumes scan: "cliGet net (WithTimeout w) (GetPrefixKeysOnly path) w = (Inr resp, w1)"
    and count: "Count resp \<noteq> 0"
  shows "List conv net path w =
     ((fst (fillValues net (WithTimeout w)
              (sort_key Path (case conv path (Kvs resp) of Inl e \<Rightarrow> [] | Inr l \<Rightarrow> l)) w1),
       (case conv path (Kvs resp) of Inl e \<Rightarrow> Some e | Inr l \<Rightarrow> None)),
      snd (fillValues net (WithTimeout w)
              (sort_key Path (case conv path (Kvs resp) of Inl e \<Rightarrow> [] | Inr l \<Rightarrow> l)) w1))"
  using scan count by (simp add: List_def Let_def split: sum.splits prod.splits)

lemma List_scan_failed:
  assumes "cliGet net (WithTimeout w) (GetPrefixKeysOnly path) w = (Inl err, w1)"
  shows "List conv net path w = (([], Some (ClientError err)), w1)"
  using assms by (simp add: List_def Let_def)

lemma List_no_match:
  assumes "cliGet net (WithTimeout w) (GetPrefixKeysOnly path) w = (Inr resp, w1)"
    and "Count resp = 0"
  shows "List conv net path w = (([], None), w1)"
  using assms by (simp add: List_def Let_def)

lemma List_sent:
  "\<exists>vs :: Node list. sent (snd (List conv net path w))
        = sent w @ (WithTimeout w, GetPrefixKeysOnly path) # map (\<lambda>v. (WithTimeout w, GetKey (Path v))) vs"
proof -
  obtain r w1 where scan: "cliGet net (WithTimeout w) (GetPrefixKeysOnly path) w = (r, w1)"
    by (cases "cliGet net (WithTimeout w) (GetPrefixKeysOnly path) w")
  have s1: "sent w1 = sent w @ [(WithTimeout w, GetPrefixKeysOnly path)]"
    using cliGet_sent[of net "WithTimeout w" "GetPrefixKeysOnly path" w] scan by simp
  show ?thesis
  proof (cases r)
    case (Inl err)
    then have "List conv net path w = (([], Some (ClientError err)), w1)"
      using scan by (simp add: List_scan_failed)
    then have "sent (snd (List conv net path w))
          = sent w @ (WithTimeout w, GetPrefixKeysOnly path) # map (\<lambda>v. (WithTimeout w, GetKey (Path v))) []"
      using s1 by simp
    then show ?thesis by (rule exI)
  next
    case (Inr resp)
    show ?thesis
    proof (cases "Count resp = 0")
      case True
      then have "List conv net path w = (([], None), w1)"
        using scan Inr by (simp add: List_no_match)
      then have "sent (snd (List conv net path w))
          = sent w @ (WithTimeout w, GetPrefixKeysOnly path) # map (\<lambda>v. (WithTimeout w, GetKey (Path v))) []"
      using s1 by simp
    then show ?thesis by (rule exI)
    next
      case False
      let ?l = "sort_key Path (case conv path (Kvs resp) of Inl e \<Rightarrow> [] | Inr l \<Rightarrow> l)"
      have "sent (snd (List conv net path w)) = sent w1 @ map (\<lambda>v. (WithTimeout w, GetKey (Path v))) ?l"
        using List_converted[of net w path resp w1 conv] scan Inr False
        by (simp add: fillValues_sent)
      then have "sent (snd (List conv net path w))
          = sent w @ (WithTimeout w, GetPrefixKeysOnly path) # map (\<lambda>v. (WithTimeout w, GetKey (Path v))) ?l"
        using s1 by simp
      then show ?thesis by (rule exI)
    qed
  qed
qed

text \<open>
  Claim C2. Whatever the store answers and in whatever order, the nodes that \<open>List\<close>
  returns are in ascending order of their paths: no node is followed by one whose path
  is smaller in Go's byte-wise comparison.
\<close>

theorem List_sorted_by_path:
  "sorted (map Path (fst (fst (List conv net path w))))
   \<and> sorted_wrt (\<lambda>a b. \<not> bytesLess (Path b) (Path a)) (fst (fst (List conv net path w)))"
proof -
  have s: "sorted (map Path (fst (fst (List conv net path w))))"
    by (rule List_paths_sorted)
  then have "sorted_wrt (\<lambda>a b. Path a \<le> Path b) (fst (fst (List conv net path w)))"
    by (simp add: sorted_map)
  then have "sorted_wrt (\<lambda>a b. \<not> bytesLess (Path b) (Path a)) (fst (fst (List conv net path w)))"
    by (simp add: bytesLess_less not_less)
  with s show ?thesis by simp
qed

text \<open>
  Claim C9. If the prefix scan is answered with a count of zero, \<open>List\<close> returns the
  empty list and no error, and it sends nothing after the scan. This holds for every
  converter: the converter has no part in the result.
\<close>

theorem List_empty_scan:
  assumes "cliGet net (WithTimeout w) (GetPrefixKeysOnly path) w = (Inr resp, w1)"
    and "Count resp = 0"
  shows "\<forall>conv. List conv net path w = (([], None), w1)
           \<and> sent w1 = sent w @ [(WithTimeout w, GetPrefixKeysOnly path)]"
proof -
  have "sent w1 = sent w @ [(WithTimeout w, GetPrefixKeysOnly path)]"
    using cliGet_sent[of net "WithTimeout w" "GetPrefixKeysOnly path" w] assms(1) by simp
  then show ?thesis using assms by (simp add: List_no_match)
qed

lemma netEmpty_scan:
  "cliGet netEmpty (WithTimeout world0) (GetPrefixKeysOnly ''/a'') world0
   = (Inr \<lparr>Kvs = [], Count = 0\<rparr>,
      \<lparr>now = 1000000, sent = [(5000000000, GetPrefixKeysOnly ''/a'')], printed = []\<rparr>)"
  by (simp add: cliGet_def WithTimeout_def DefaultTimeout_def world0_def netEmpty_def Let_def)

theorem List_empty_scan_witness:
  "\<forall>conv. List conv netEmpty ''/a'' world0
     = (([], None), \<lparr>now = 1000000, sent = [(5000000000, GetPrefixKeysOnly ''/a'')], printed = []\<rparr>)"
  using List_empty_scan[OF netEmpty_scan] by simp

lemma scanAnswer_converted: "ConvertToPath Some ''/a'' (Kvs scanAnswer) = Inr [nodeAC, nodeAB]"
  by (simp add: scanAnswer_def nodeAB_def nodeAC_def ConvertToPath_def entryNode_def
      stripPrefix_def addNode_def sep_def)

lemma sort_example: "sort_key Path [nodeAC, nodeAB] = [nodeAB, nodeAC]"
  by (simp add: nodeAB_def nodeAC_def less_eq_char_def)

text \<open>
  The spec's example of section 8, run on the model: the listing of \<^verbatim>\<open>/a\<close> is the leaf
  \<^verbatim>\<open>/a/b\<close> with its value and the directory \<^verbatim>\<open>/a/c\<close>, as the spec says.
\<close>

lemma List_example:
  "List (ConvertToPath Some) netExample ''/a'' world0
   = (([nodeAB\<lparr>Value := ''1''\<rparr>, nodeAC], None),
      \<lparr>now = 3000000,
       sent = [(5000000000, GetPrefixKeysOnly ''/a''), (5000000000, GetKey ''/a/b''),
               (5000000000, GetKey ''/a/c'')],
       printed = []\<rparr>)"
  by (simp add: List_def WithTimeout_def DefaultTimeout_def cliGet_def world0_def netExample_def
      scanAnswer_converted sort_example Let_def)
     (simp add: scanAnswer_def nodeAB_def nodeAC_def)

lemma List_slow:
  "List (ConvertToPath Some) netSlow ''/a'' world0
   = (([nodeAB, nodeAC], None),
      \<lparr>now = 5000000000,
       sent = [(5000000000, GetPrefixKeysOnly ''/a''), (5000000000, GetKey ''/a/b''),
               (5000000000, GetKey ''/a/c'')],
       printed = [readValueError, readValueError]\<rparr>)"
  by (simp add: List_def WithTimeout_def DefaultTimeout_def cliGet_def world0_def netSlow_def
      scanAnswer_converted sort_example Let_def)
     (simp add: scanAnswer_def nodeAB_def nodeAC_def)

text \<open>
  For every converter: after the scan, one fetch goes out for each node of the sorted
  list, directory or not, and no node is dropped, whatever the fetches answer.
\<close>

lemma List_fetches_every_node:
  assumes scan: "cliGet net (WithTimeout w) (GetPrefixKeysOnly path) w = (Inr resp, w1)"
    and count: "Count resp \<noteq> 0"
    and conv: "conv path (Kvs resp) = Inr l"
  shows "sent (snd (List conv net path w))
           = sent w @ (WithTimeout w, GetPrefixKeysOnly path)
               # map (\<lambda>v. (WithTimeout w, GetKey (Path v))) (sort_key Path l)"
    and "map Path (fst (fst (List conv net path w))) = map Path (sort_key Path l)"
    and "distinct (map Path l) \<Longrightarrow>
         map IsDir (fst (fst (List conv net path w))) = map IsDir (sort_key Path l)"
proof -
  have s1: "sent w1 = sent w @ [(WithTimeout w, GetPrefixKeysOnly path)]"
    using cliGet_sent[of net "WithTimeout w" "GetPrefixKeysOnly path" w] scan by simp
  show "sent (snd (List conv net path w))
           = sent w @ (WithTimeout w, GetPrefixKeysOnly path)
               # map (\<lambda>v. (WithTimeout w, GetKey (Path v))) (sort_key Path l)"
    using List_converted[OF scan count, of conv] conv s1 by (simp add: fillValues_sent)
  show "map Path (fst (fst (List conv net path w))) = map Path (sort_key Path l)"
    using List_converted[OF scan count, of conv] conv by (simp add: fillValues_Path)
  show "map IsDir (fst (fst (List conv net path w))) = map IsDir (sort_key Path l)"
    using List_converted[OF scan count, of conv] conv by (simp add: fillValues_IsDir)
qed

text \<open>
  Claim C5. The claim says that a follow-up fetch goes out for every node that is not a
  directory, and only for those; the comment of line 130 says the same (``if it is a
  value, read the value's content''). The loop of lines 131 to 140 has no such test. At
  the spec's own example the converter gives the directory \<^verbatim>\<open>/a/c\<close> and the leaf
  \<^verbatim>\<open>/a/b\<close>, and \<open>List\<close> sends three requests: the scan, the fetch of the leaf, and a
  fetch of the directory's path.
\<close>

theorem List_fetches_directory_node:
  "ConvertToPath Some ''/a'' (Kvs scanAnswer) = Inr [nodeAC, nodeAB]
   \<and> IsDir nodeAC
   \<and> sent (snd (List (ConvertToPath Some) netExample ''/a'' world0))
       = [(5000000000, GetPrefixKeysOnly ''/a''), (5000000000, GetKey ''/a/b''),
          (5000000000, GetKey (Path nodeAC))]"
  by (simp add: scanAnswer_converted List_example) (simp add: nodeAC_def)

text \<open>
  Claim C6, as stated, fails: on the slow network the scan is answered in time, the
  fetch of \<^verbatim>\<open>/a/b\<close> is cut off by the deadline, the clock stands at the deadline when
  \<open>List\<close> returns, both fetches are logged as failed, and the error that \<open>List\<close>
  returns is \<^verbatim>\<open>nil\<close>.
\<close>

theorem List_deadline_not_surfaced:
  "WithTimeout world0 = 5000000000
   \<and> fst (cliGet netSlow 5000000000 (GetKey ''/a/b'')
           \<lparr>now = 1000000, sent = [(5000000000, GetPrefixKeysOnly ''/a'')], printed = []\<rparr>)
       = Inl DeadlineExceeded
   \<and> List (ConvertToPath Some) netSlow ''/a'' world0
       = (([nodeAB, nodeAC], None),
          \<lparr>now = 5000000000,
           sent = [(5000000000, GetPrefixKeysOnly ''/a''), (5000000000, GetKey ''/a/b''),
                   (5000000000, GetKey ''/a/c'')],
           printed = [readValueError, readValueError]\<rparr>)"
  by (simp add: List_slow)
     (simp add: WithTimeout_def DefaultTimeout_def world0_def cliGet_def netSlow_def Let_def)

lemma fillValues_append:
  "fillValues net ctx (xs @ ys) w
   = (fst (fillValues net ctx xs w) @ fst (fillValues net ctx ys (snd (fillValues net ctx xs w))),
      snd (fillValues net ctx ys (snd (fillValues net ctx xs w))))"
  by (induction xs arbitrary: w) (auto simp: Let_def split: prod.splits sum.splits)

lemma map_insort_key: "map f (insort_key f x xs) = insort (f x) (map f xs)"
  by (induction xs) auto

lemma map_sort_key: "map f (sort_key f xs) = sort (map f xs)"
  by (induction xs) (auto simp: map_insort_key)

text \<open>
  The loop once the deadline passes while the fetch for the node at index \<open>k\<close> is
  under way: the nodes from \<open>k\<close> on come back as they were, and one line is logged
  for each of them.
\<close>

lemma fillValues_deadline_at:
  assumes k: "k \<le> length vs"
    and late: "ctx \<le> now (beforeFetch net ctx vs w k)
                  + latency (net (length (sent (beforeFetch net ctx vs w k))))"
  shows "fst (fillValues net ctx vs w) = fst (fillValues net ctx (take k vs) w) @ drop k vs"
    and "printed (snd (fillValues net ctx vs w))
         = printed (beforeFetch net ctx vs w k) @ replicate (length vs - k) readValueError"
proof -
  let ?wk = "beforeFetch net ctx vs w k"
  obtain b w2 where f: "fillValues net ctx (drop k vs) ?wk = (b, w2)"
    by (cases "fillValues net ctx (drop k vs) ?wk")
  have l: "b = drop k vs \<and> printed w2 = printed ?wk @ replicate (length (drop k vs)) readValueError"
    using fillValues_late[OF f late] .
  have "fillValues net ctx (take k vs @ drop k vs) w
        = (fst (fillValues net ctx (take k vs) w) @ b, w2)"
    using fillValues_append[of net ctx "take k vs" "drop k vs" w] f
    by (simp add: beforeFetch_def)
  then have r: "fillValues net ctx vs w = (fst (fillValues net ctx (take k vs) w) @ b, w2)"
    by simp
  show "fst (fillValues net ctx vs w) = fst (fillValues net ctx (take k vs) w) @ drop k vs"
    using r l by simp
  show "printed (snd (fillValues net ctx vs w))
         = printed (beforeFetch net ctx vs w k) @ replicate (length vs - k) readValueError"
    using r l by simp
qed

text \<open>
  Claim C6, amended. All requests of one \<open>List\<close>, the scan and every fetch, carry the
  one deadline that the call fixed at its start. If the deadline passes during the scan,
  \<open>List\<close> returns the deadline error and an empty list. If the scan is answered in
  time with a count other than zero, the error that \<open>List\<close> returns is the converter's
  and nothing else, whatever happens to the fetches, and the paths of the nodes returned
  are the paths of the converter's nodes, sorted: no node is dropped. If the deadline
  passes during the fetch for the node at any index \<open>k\<close>, one line is logged for
  that node and for every node after it, and (the converter's paths being distinct) the
  nodes from \<open>k\<close> on are returned as the converter gave them, after the nodes before
  \<open>k\<close> as the loop left them.
\<close>

theorem List_shared_deadline:
  "(\<forall>r \<in> set (drop (length (sent w)) (sent (snd (List conv net path w)))). fst r = WithTimeout w)
   \<and> (WithTimeout w \<le> now w + latency (net (length (sent w))) \<longrightarrow>
        fst (List conv net path w) = ([], Some (ClientError DeadlineExceeded)))
   \<and> (\<forall>resp w1. cliGet net (WithTimeout w) (GetPrefixKeysOnly path) w = (Inr resp, w1)
          \<and> Count resp \<noteq> 0 \<longrightarrow>
        snd (fst (List conv net path w))
          = (case conv path (Kvs resp) of Inl e \<Rightarrow> Some e | Inr l \<Rightarrow> None)
        \<and> (\<forall>l. conv path (Kvs resp) = Inr l \<longrightarrow>
              map Path (fst (fst (List conv net path w))) = sort (map Path l)
              \<and> (\<forall>k. k < length l
                    \<and> WithTimeout w
                        \<le> now (beforeFetch net (WithTimeout w) (sort_key Path l) w1 k)
                          + latency (net (length (sent
                              (beforeFetch net (WithTimeout w) (sort_key Path l) w1 k)))) \<longrightarrow>
                  printed (snd (List conv net path w))
                    = printed (beforeFetch net (WithTimeout w) (sort_key Path l) w1 k)
                        @ replicate (length l - k) readValueError
                  \<and> (distinct (map Path l) \<longrightarrow>
                       fst (fst (List conv net path w))
                         = fst (fillValues net (WithTimeout w) (take k (sort_key Path l)) w1)
                             @ drop k (sort_key Path l)))))"
proof (intro conjI allI impI)
  obtain vs :: "Node list" where
    "sent (snd (List conv net path w))
       = sent w @ (WithTimeout w, GetPrefixKeysOnly path)
           # map (\<lambda>v. (WithTimeout w, GetKey (Path v))) vs"
    using List_sent[of conv net path w] by blast
  then show "\<forall>r \<in> set (drop (length (sent w)) (sent (snd (List conv net path w)))).
               fst r = WithTimeout w"
    by auto
next
  assume late: "WithTimeout w \<le> now w + latency (net (length (sent w)))"
  obtain r w1 where scan: "cliGet net (WithTimeout w) (GetPrefixKeysOnly path) w = (r, w1)"
    by (cases "cliGet net (WithTimeout w) (GetPrefixKeysOnly path) w")
  have "r = Inl DeadlineExceeded"
    using cliGet_late[of "WithTimeout w" w net "GetPrefixKeysOnly path"] late scan by simp
  then show "fst (List conv net path w) = ([], Some (ClientError DeadlineExceeded))"
    using scan by (simp add: List_scan_failed)
next
  fix resp w1
  assume a: "cliGet net (WithTimeout w) (GetPrefixKeysOnly path) w = (Inr resp, w1)
             \<and> Count resp \<noteq> 0"
  then show "snd (fst (List conv net path w))
          = (case conv path (Kvs resp) of Inl e \<Rightarrow> Some e | Inr l \<Rightarrow> None)"
    by (simp add: List_converted)
next
  fix resp w1 l
  assume a: "cliGet net (WithTimeout w) (GetPrefixKeysOnly path) w = (Inr resp, w1)
             \<and> Count resp \<noteq> 0"
    and b: "conv path (Kvs resp) = Inr l"
  have "map Path (fst (fst (List conv net path w))) = map Path (sort_key Path l)"
    using List_converted[of net w path resp w1 conv] a b by (simp add: fillValues_Path)
  then show "map Path (fst (fst (List conv net path w))) = sort (map Path l)"
    by (simp add: map_sort_key)
next
  fix resp w1 l k
  assume a: "cliGet net (WithTimeout w) (GetPrefixKeysOnly path) w = (Inr resp, w1)
             \<and> Count resp \<noteq> 0"
    and b: "conv path (Kvs resp) = Inr l"
    and c: "k < length l
            \<and> WithTimeout w
                \<le> now (beforeFetch net (WithTimeout w) (sort_key Path l) w1 k)
                  + latency (net (length (sent
                      (beforeFetch net (WithTimeout w) (sort_key Path l) w1 k))))"
  have k: "k \<le> length (sort_key Path l)" using c by simp
  have l: "List conv net path w
           = ((fst (fillValues net (WithTimeout w) (sort_key Path l) w1), None),
              snd (fillValues net (WithTimeout w) (sort_key Path l) w1))"
    using List_converted[of net w path resp w1 conv] a b by simp
  show "printed (snd (List conv net path w))
          = printed (beforeFetch net (WithTimeout w) (sort_key Path l) w1 k)
              @ replicate (length l - k) readValueError"
    using fillValues_deadline_at(2)[OF k] c l by simp
  show "fst (fst (List conv net path w))
          = fst (fillValues net (WithTimeout w) (take k (sort_key Path l)) w1)
              @ drop k (sort_key Path l)"
    using fillValues_deadline_at(1)[OF k] c l by simp
qed

lemma netSlow_scan:
  "cliGet netSlow (WithTimeout world0) (GetPrefixKeysOnly ''/a'') world0
   = (Inr scanAnswer, \<lparr>now = 1000000, sent = [(5000000000, GetPrefixKeysOnly ''/a'')], printed = []\<rparr>)"
  by (simp add: cliGet_def WithTimeout_def DefaultTimeout_def world0_def netSlow_def Let_def)

lemma netSlowSecond_scan:
  "cliGet netSlowSecond (WithTimeout world0) (GetPrefixKeysOnly ''/a'') world0
   = (Inr scanAnswer, \<lparr>now = 1000000, sent = [(5000000000, GetPrefixKeysOnly ''/a'')], printed = []\<rparr>)"
  by (simp add: cliGet_def WithTimeout_def DefaultTimeout_def world0_def netSlowSecond_def Let_def)

lemma netSlowSecond_first_fetch:
  "fillValues netSlowSecond 5000000000 [nodeAB]
     \<lparr>now = 1000000, sent = [(5000000000, GetPrefixKeysOnly ''/a'')], printed = []\<rparr>
   = ([nodeAB\<lparr>Value := ''1''\<rparr>],
      \<lparr>now = 2000000,
       sent = [(5000000000, GetPrefixKeysOnly ''/a''), (5000000000, GetKey ''/a/b'')],
       printed = []\<rparr>)"
  by (simp add: cliGet_def netSlowSecond_def nodeAB_def Let_def)

text \<open>
  Three runs: the deadline passes during the scan; during the first fetch; and during
  the second fetch, after the first has brought the value of \<^verbatim>\<open>/a/b\<close>.
\<close>

theorem List_shared_deadline_witness:
  "fst (List (ConvertToPath Some) netDead ''/a'' world0) = ([], Some (ClientError DeadlineExceeded))
   \<and> fst (List (ConvertToPath Some) netSlow ''/a'' world0) = ([nodeAB, nodeAC], None)
   \<and> printed (snd (List (ConvertToPath Some) netSlow ''/a'' world0))
       = [readValueError, readValueError]
   \<and> fst (List (ConvertToPath Some) netSlowSecond ''/a'' world0)
       = ([nodeAB\<lparr>Value := ''1''\<rparr>, nodeAC], None)
   \<and> printed (snd (List (ConvertToPath Some) netSlowSecond ''/a'' world0)) = [readValueError]"
proof -
  let ?w1 = "\<lparr>now = 1000000, sent = [(5000000000, GetPrefixKeysOnly ''/a'')], printed = []\<rparr>"
  let ?w2 = "\<lparr>now = 2000000,
       sent = [(5000000000, GetPrefixKeysOnly ''/a''), (5000000000, GetKey ''/a/b'')],
       printed = []\<rparr>"
  have dead: "WithTimeout world0 \<le> now world0 + latency (netDead (length (sent world0)))"
    by (simp add: WithTimeout_def DefaultTimeout_def world0_def netDead_def)
  have count: "Count scanAnswer \<noteq> 0"
    by (simp add: scanAnswer_def)
  have ctx: "WithTimeout world0 = 5000000000"
    by (simp add: WithTimeout_def DefaultTimeout_def world0_def)
  have dist: "distinct (map Path [nodeAC, nodeAB])"
    by (simp add: nodeAB_def nodeAC_def)
  have k0: "0 < length [nodeAC, nodeAB]" and k1: "1 < length [nodeAC, nodeAB]"
    by simp_all
  have before0: "beforeFetch netSlow (WithTimeout world0) (sort_key Path [nodeAC, nodeAB]) ?w1 0 = ?w1"
    by (simp only: beforeFetch_def take_0 fillValues.simps snd_conv)
  have late0: "WithTimeout world0
      \<le> now (beforeFetch netSlow (WithTimeout world0) (sort_key Path [nodeAC, nodeAB]) ?w1 0)
        + latency (netSlow (length (sent
            (beforeFetch netSlow (WithTimeout world0) (sort_key Path [nodeAC, nodeAB]) ?w1 0))))"
    unfolding before0 by (simp add: ctx netSlow_def)
  have before1:
    "beforeFetch netSlowSecond (WithTimeout world0) (sort_key Path [nodeAC, nodeAB]) ?w1 1 = ?w2"
    unfolding sort_example ctx beforeFetch_def
    by (simp only: take_Suc_Cons take_0 One_nat_def netSlowSecond_first_fetch snd_conv)
  have late1: "WithTimeout world0
      \<le> now (beforeFetch netSlowSecond (WithTimeout world0) (sort_key Path [nodeAC, nodeAB]) ?w1 1)
        + latency (netSlowSecond (length (sent
            (beforeFetch netSlowSecond (WithTimeout world0) (sort_key Path [nodeAC, nodeAB]) ?w1 1))))"
    unfolding before1 by (simp add: ctx netSlowSecond_def)
  have a: "fst (List (ConvertToPath Some) netDead ''/a'' world0)
           = ([], Some (ClientError DeadlineExceeded))"
    using List_shared_deadline[of world0 "ConvertToPath Some" netDead "''/a''"] dead by blast
  note slow = List_shared_deadline[of world0 "ConvertToPath Some" netSlow "''/a''",
      THEN conjunct2, THEN conjunct2, rule_format, OF conjI[OF netSlow_scan count]]
  note slow_k = slow[THEN conjunct2, rule_format, OF scanAnswer_converted,
      THEN conjunct2, rule_format, OF conjI[OF k0 late0]]
  have b1: "snd (fst (List (ConvertToPath Some) netSlow ''/a'' world0)) = None"
    using slow[THEN conjunct1] by (simp add: scanAnswer_converted)
  have b2: "printed (snd (List (ConvertToPath Some) netSlow ''/a'' world0))
          = [readValueError, readValueError]"
    using slow_k[THEN conjunct1, unfolded before0] by (simp add: numeral_2_eq_2)
  have b3: "fst (fst (List (ConvertToPath Some) netSlow ''/a'' world0)) = [nodeAB, nodeAC]"
    using slow_k[THEN conjunct2, rule_format, OF dist, unfolded sort_example] by simp
  note second = List_shared_deadline[of world0 "ConvertToPath Some" netSlowSecond "''/a''",
      THEN conjunct2, THEN conjunct2, rule_format, OF conjI[OF netSlowSecond_scan count]]
  note second_k = second[THEN conjunct2, rule_format, OF scanAnswer_converted,
      THEN conjunct2, rule_format, OF conjI[OF k1 late1]]
  have c1: "snd (fst (List (ConvertToPath Some) netSlowSecond ''/a'' world0)) = None"
    using second[THEN conjunct1] by (simp add: scanAnswer_converted)
  have c2: "printed (snd (List (ConvertToPath Some) netSlowSecond ''/a'' world0)) = [readValueError]"
    using second_k[THEN conjunct1, unfolded before1] by simp
  have c3: "fst (fst (List (ConvertToPath Some) netSlowSecond ''/a'' world0))
          = [nodeAB\<lparr>Value := ''1''\<rparr>, nodeAC]"
    using second_k[THEN conjunct2, rule_format, OF dist, unfolded sort_example ctx]
    by (simp only: take_Suc_Cons take_0 drop_Suc_Cons drop_0 One_nat_def
        netSlowSecond_first_fetch fst_conv append_Cons append_Nil)
  show ?thesis using a b1 b2 b3 c1 c2 c3 by (simp add: prod_eq_iff)
qed

section \<open>Val\<close>

lemma Val_sent: "sent (snd (Val conv net path w)) = sent w @ [(WithTimeout w, GetKey path)]"
proof -
  obtain r w1 where g: "cliGet net (WithTimeout w) (GetKey path) w = (r, w1)"
    by (cases "cliGet net (WithTimeout w) (GetKey path) w")
  have "sent w1 = sent w @ [(WithTimeout w, GetKey path)]"
    using cliGet_sent[of net "WithTimeout w" "GetKey path" w] g by simp
  moreover have "snd (Val conv net path w) = w1"
    using g by (simp add: Val_def Let_def split: sum.splits list.splits)
  ultimately show ?thesis by simp
qed

text \<open>
  The four ways \<open>Val\<close> can end, for every converter: with the error of the fetch; with
  the sentinel, when the fetch is answered without a pair; with the converter's error;
  with the first node of the converter's list. Line 162 reads that first node without
  a test, so the call panics exactly when the converter returns an empty list and no
  error for an answer that holds a pair.
\<close>

lemma Val_fetch_failed:
  "fst (cliGet net (WithTimeout w) (GetKey path) w) = Inl err \<Longrightarrow>
   fst (Val conv net path w) = Returns (Inl (ClientError err))"
  by (cases "cliGet net (WithTimeout w) (GetKey path) w") (simp add: Val_def Let_def)

lemma Val_answered:
  "fst (cliGet net (WithTimeout w) (GetKey path) w) = Inr resp \<Longrightarrow>
   fst (Val conv net path w) =
     (if length (Kvs resp) = 0 then Returns (Inl ERR_KEY_NOT_FOUND)
      else case conv path (Kvs resp) of
             Inl e \<Rightarrow> Returns (Inl e)
           | Inr [] \<Rightarrow> PanicIndexOutOfRange
           | Inr (d # rest) \<Rightarrow> Returns (Inr d))"
  by (cases "cliGet net (WithTimeout w) (GetKey path) w")
     (simp add: Val_def Let_def split: sum.splits list.splits)

lemma Val_panics_iff:
  "fst (Val conv net path w) = PanicIndexOutOfRange
   \<longleftrightarrow> (\<exists>resp. fst (cliGet net (WithTimeout w) (GetKey path) w) = Inr resp
              \<and> length (Kvs resp) \<noteq> 0 \<and> conv path (Kvs resp) = Inr [])"
proof (cases "fst (cliGet net (WithTimeout w) (GetKey path) w)")
  case (Inl err)
  then show ?thesis using Val_fetch_failed[of net w path err conv] by simp
next
  case (Inr resp)
  then show ?thesis
    using Val_answered[of net w path resp conv] by (auto split: sum.splits list.splits)
qed

text \<open>
  Claim C4. The converter is any function that never fails with the sentinel
  \<open>ERR_KEY_NOT_FOUND\<close> (by the spec its failure is the decoding error). Then \<open>Val\<close>
  returns the sentinel exactly when its fetch is answered with no pair; it returns a
  node exactly when the fetch is answered with at least one pair and the converter makes
  a list of the answer, and the node is the first of that list; so an answer without
  pairs is never a success. \<open>Val\<close> sends the one fetch of the exact key and nothing
  else.
\<close>

theorem Val_not_found:
  assumes conv: "\<forall>kvs. conv path kvs \<noteq> Inl ERR_KEY_NOT_FOUND"
  shows "(fst (Val conv net path w) = Returns (Inl ERR_KEY_NOT_FOUND)
            \<longleftrightarrow> (\<exists>resp. fst (cliGet net (WithTimeout w) (GetKey path) w) = Inr resp
                       \<and> length (Kvs resp) = 0))
       \<and> (\<forall>d. fst (Val conv net path w) = Returns (Inr d)
            \<longleftrightarrow> (\<exists>resp rest. fst (cliGet net (WithTimeout w) (GetKey path) w) = Inr resp
                       \<and> length (Kvs resp) \<noteq> 0
                       \<and> conv path (Kvs resp) = Inr (d # rest)))
       \<and> sent (snd (Val conv net path w)) = sent w @ [(WithTimeout w, GetKey path)]"
proof (cases "fst (cliGet net (WithTimeout w) (GetKey path) w)")
  case (Inl err)
  then show ?thesis
    using Val_fetch_failed[of net w path err conv] Val_sent[of conv net path w] by simp
next
  case (Inr resp)
  have nf: "fst (Val conv net path w) = Returns (Inl ERR_KEY_NOT_FOUND)
            \<longleftrightarrow> length (Kvs resp) = 0"
    using Val_answered[of net w path resp conv] Inr conv
    by (auto split: sum.splits list.splits)
  have ok: "fst (Val conv net path w) = Returns (Inr d)
            \<longleftrightarrow> (\<exists>rest. length (Kvs resp) \<noteq> 0 \<and> conv path (Kvs resp) = Inr (d # rest))" for d
    using Val_answered[of net w path resp conv] Inr
    by (auto split: sum.splits list.splits)
  show ?thesis
    using nf ok Inr Val_sent[of conv net path w] by simp
qed

lemma leafConverter_not_sentinel: "\<forall>kvs. leafConverter p kvs \<noteq> Inl ERR_KEY_NOT_FOUND"
  by (simp add: leafConverter_def)

text \<open>
  Two runs with a converter that makes the leaf of each pair: the key \<^verbatim>\<open>/k\<close> is
  absent and the fetch is answered without a pair; the key holds \<^verbatim>\<open>V2\<close> and the
  fetch is answered with that pair.
\<close>

theorem Val_not_found_witness:
  "fst (Val leafConverter netEmpty ''/k'' world0) = Returns (Inl ERR_KEY_NOT_FOUND)
   \<and> fst (Val leafConverter (netOne ''/k'' ''V2'') ''/k'' world0)
       = Returns (Inr \<lparr>Path = ''/k'', Value = ''V2'', IsDir = False\<rparr>)
   \<and> fst (Val leafConverter (netOne ''/k'' ''V2'') ''/k'' world0)
       \<noteq> Returns (Inl ERR_KEY_NOT_FOUND)"
proof -
  have a: "fst (cliGet netEmpty (WithTimeout world0) (GetKey ''/k'') world0)
           = Inr \<lparr>Kvs = [], Count = 0\<rparr>"
    by (simp add: cliGet_def WithTimeout_def DefaultTimeout_def world0_def netEmpty_def Let_def)
  have b: "fst (cliGet (netOne ''/k'' ''V2'') (WithTimeout world0) (GetKey ''/k'') world0)
           = Inr \<lparr>Kvs = [\<lparr>Key = ''/k'', KvValue = ''V2''\<rparr>], Count = 1\<rparr>"
    by (simp add: cliGet_def WithTimeout_def DefaultTimeout_def world0_def netOne_def Let_def)
  have c: "leafConverter ''/k'' [\<lparr>Key = ''/k'', KvValue = ''V2''\<rparr>]
           = Inr [\<lparr>Path = ''/k'', Value = ''V2'', IsDir = False\<rparr>]"
    by (simp add: leafConverter_def)
  note absent = Val_not_found[OF leafConverter_not_sentinel, where net = netEmpty and w = world0]
  note stored = Val_not_found[OF leafConverter_not_sentinel,
      where net = "netOne ''/k'' ''V2''" and w = world0]
  have "fst (Val leafConverter netEmpty ''/k'' world0) = Returns (Inl ERR_KEY_NOT_FOUND)"
    using absent a by simp
  moreover have "fst (Val leafConverter (netOne ''/k'' ''V2'') ''/k'' world0)
       = Returns (Inr \<lparr>Path = ''/k'', Value = ''V2'', IsDir = False\<rparr>)"
    using stored b c by simp
  moreover have "fst (Val leafConverter (netOne ''/k'' ''V2'') ''/k'' world0)
       \<noteq> Returns (Inl ERR_KEY_NOT_FOUND)"
    using stored b by simp
  ultimately show ?thesis by simp
qed

text \<open>
  The converter of section 4.1 meets the condition of \<open>Val_not_found\<close>: its only
  error is the decoding error. It turns the pair whose key is the prefix into the empty
  list, so with it \<open>Val\<close> would return no node for the key asked for; whether the
  converter of the repository does so is decided by its body, which is not among the
  sources.
\<close>

lemma convertLoop_error: "convertLoop dec p S acc = Inl e \<Longrightarrow> e = DecodingError"
  by (induction S arbitrary: acc) (auto split: option.splits)

lemma ConvertToPath_not_sentinel: "\<forall>kvs. ConvertToPath dec p kvs \<noteq> Inl ERR_KEY_NOT_FOUND"
  by (auto simp: ConvertToPath_def dest: convertLoop_error)

lemma ConvertToPath_self: "dec (Key kv) = Some p \<Longrightarrow> ConvertToPath dec p [kv] = Inr []"
  by (simp add: ConvertToPath_def entryNode_self)

section \<open>Add and Del\<close>

lemma storeTxn_add:
  "storeTxn [VersionEquals k 0] [OpPut k v] s =
     (if version s k = 0 then (\<lparr>Succeeded = True\<rparr>, s(k := (1, v))) else (\<lparr>Succeeded = False\<rparr>, s))"
  by (simp add: storeTxn_def holds_def applyOp_def)

lemma Add_journal:
  "journal (snd (Add tr k v e)) = journal e @ [TxnRequest [VersionEquals k 0] [OpPut k v]]"
  by (cases tr) (simp_all add: Add_def Commit_def Let_def storeTxn_add)

lemma Add_content:
  "content (snd (Add tr k v e)) =
     (if version (content e) k = 0 \<and> (\<forall>err. tr \<noteq> LostBefore err)
      then (content e)(k := (1, v)) else content e)"
  by (cases tr) (simp_all add: Add_def Commit_def Let_def storeTxn_add)

lemma Add_result:
  "fst (Add tr k v e) =
     (case tr of
        Delivered \<Rightarrow> if version (content e) k = 0 then None else Some ERR_ADD_KEY
      | LostBefore err \<Rightarrow> Some (ClientError err)
      | LostAfter err \<Rightarrow> Some (ClientError err))"
  by (cases tr) (simp_all add: Add_def Commit_def Let_def storeTxn_add)

text \<open>
  Claim C3. \<open>Add\<close> issues one request, the transaction that puts the value if the
  key's version is zero. The store's content changes only if that version was zero, and
  then only at this key, which gets the value at version 1. If the key exists (its
  version is not zero), the store's content stays as it was and the call fails, whatever
  the network does: it returns \<open>ERR_ADD_KEY\<close> once the store's answer reaches it, and
  the error of the commit itself otherwise (lines 183 to 185 return that one first).
  \<open>ERR_ADD_KEY\<close> is returned in no other case.
\<close>

theorem Add_only_if_absent:
  "journal (snd (Add tr k v e)) = journal e @ [TxnRequest [VersionEquals k 0] [OpPut k v]]
   \<and> (content (snd (Add tr k v e)) \<noteq> content e \<longrightarrow>
        version (content e) k = 0 \<and> content (snd (Add tr k v e)) = (content e)(k := (1, v)))
   \<and> (version (content e) k \<noteq> 0 \<longrightarrow>
        content (snd (Add tr k v e)) = content e
        \<and> fst (Add tr k v e) \<noteq> None
        \<and> (tr = Delivered \<longrightarrow> fst (Add tr k v e) = Some ERR_ADD_KEY))
   \<and> (version (content e) k = 0 \<and> tr = Delivered \<longrightarrow>
        fst (Add tr k v e) = None \<and> content (snd (Add tr k v e)) k = (1, v))
   \<and> (fst (Add tr k v e) = Some ERR_ADD_KEY \<longleftrightarrow> tr = Delivered \<and> version (content e) k \<noteq> 0)"
  by (cases tr) (auto simp: Add_journal Add_content Add_result)

text \<open>
  The spec's scenario: on an empty store \<open>Add\<close> of a key succeeds; a second \<open>Add\<close> of
  the same key with another value fails with \<open>ERR_ADD_KEY\<close> and the first value stays.
\<close>

theorem Add_only_if_absent_witness:
  "fst (Add Delivered ''/k'' ''v'' etcd0) = None
   \<and> content (snd (Add Delivered ''/k'' ''v'' etcd0)) ''/k'' = (1, ''v'')
   \<and> fst (Add Delivered ''/k'' ''v2'' (snd (Add Delivered ''/k'' ''v'' etcd0))) = Some ERR_ADD_KEY
   \<and> content (snd (Add Delivered ''/k'' ''v2'' (snd (Add Delivered ''/k'' ''v'' etcd0)))) ''/k''
       = (1, ''v'')
   \<and> content (snd (Add Delivered ''/k'' ''v'' etcd0)) \<noteq> content etcd0"
proof -
  have v0: "version (content etcd0) ''/k'' = 0"
    by (simp add: etcd0_def version_def)
  have first: "fst (Add Delivered ''/k'' ''v'' etcd0) = None
      \<and> content (snd (Add Delivered ''/k'' ''v'' etcd0)) ''/k'' = (1, ''v'')"
    using Add_only_if_absent[of Delivered "''/k''" "''v''" etcd0] v0 by simp
  then have v1: "version (content (snd (Add Delivered ''/k'' ''v'' etcd0))) ''/k'' \<noteq> 0"
    by (simp add: version_def)
  have second: "fst (Add Delivered ''/k'' ''v2'' (snd (Add Delivered ''/k'' ''v'' etcd0))) = Some ERR_ADD_KEY
      \<and> content (snd (Add Delivered ''/k'' ''v2'' (snd (Add Delivered ''/k'' ''v'' etcd0))))
          = content (snd (Add Delivered ''/k'' ''v'' etcd0))"
    using Add_only_if_absent[of Delivered "''/k''" "''v2''" "snd (Add Delivered ''/k'' ''v'' etcd0)"] v1
    by simp
  have "content (snd (Add Delivered ''/k'' ''v'' etcd0)) ''/k'' \<noteq> content etcd0 ''/k''"
    using first by (simp add: etcd0_def)
  then have "content (snd (Add Delivered ''/k'' ''v'' etcd0)) \<noteq> content etcd0"
    by metis
  with first second show ?thesis by simp
qed

lemma Del_journal: "journal (snd (Del tr k e)) = journal e @ [DeleteRequest k]"
  by (cases tr) (simp_all add: Del_def cliDelete_def Let_def)

lemma Del_content:
  "content (snd (Del tr k e)) =
     (if version (content e) k = 0 \<or> (\<exists>err. tr = LostBefore err)
      then content e else (content e)(k := (0, [])))"
  by (cases tr) (simp_all add: Del_def cliDelete_def storeDelete_def Let_def)

lemma Del_result:
  "fst (Del tr k e) =
     (case tr of
        Delivered \<Rightarrow> None
      | LostBefore err \<Rightarrow> Some (ClientError err)
      | LostAfter err \<Rightarrow> Some (ClientError err))"
  by (cases tr) (simp_all add: Del_def cliDelete_def Let_def)

text \<open>
  Claim C8. If the store has no entry at exactly the key \<open>k\<close> (its version is zero),
  \<open>Del\<close> leaves the store's content as it was, and it returns no error when the
  store's answer reaches it. The error of \<open>Del\<close> does not depend on the store at all:
  it is the error of the client's call, if there is one, and nothing else, so an absent
  key or a path that is only a virtual directory is never a reason to fail. \<open>Del\<close>
  issues the one delete of the exact key and changes no other key.
\<close>

theorem Del_absent_key:
  "(version (content e) k = 0 \<longrightarrow>
      content (snd (Del tr k e)) = content e \<and> (tr = Delivered \<longrightarrow> fst (Del tr k e) = None))
   \<and> fst (Del tr k e) =
       (case tr of
          Delivered \<Rightarrow> None
        | LostBefore err \<Rightarrow> Some (ClientError err)
        | LostAfter err \<Rightarrow> Some (ClientError err))
   \<and> (\<forall>k'. k' \<noteq> k \<longrightarrow> content (snd (Del tr k e)) k' = content e k')
   \<and> journal (snd (Del tr k e)) = journal e @ [DeleteRequest k]"
  by (cases tr) (auto simp: Del_journal Del_content Del_result)

theorem Del_absent_key_witness:
  "version (content etcdDir) ''/dir'' = 0
   \<and> Del Delivered ''/dir'' etcdDir = (None, etcdDir\<lparr>journal := [DeleteRequest ''/dir'']\<rparr>)
   \<and> content (snd (Del Delivered ''/dir'' etcdDir)) ''/dir/child'' = (1, ''x'')"
proof -
  have v0: "version (content etcdDir) ''/dir'' = 0"
    by (simp add: etcdDir_def version_def)
  have "content (snd (Del Delivered ''/dir'' etcdDir)) = content etcdDir
      \<and> fst (Del Delivered ''/dir'' etcdDir) = None
      \<and> journal (snd (Del Delivered ''/dir'' etcdDir)) = journal etcdDir @ [DeleteRequest ''/dir'']"
    using Del_absent_key[of etcdDir "''/dir''" Delivered] v0 by simp
  then have "Del Delivered ''/dir'' etcdDir = (None, etcdDir\<lparr>journal := [DeleteRequest ''/dir'']\<rparr>)"
    by (cases "Del Delivered ''/dir'' etcdDir") (auto simp: etcdDir_def)
  then show ?thesis using v0 by (simp add: etcdDir_def)
qed

section \<open>Members\<close>

lemma membersLoop_append:
  "\<exists>ms. membersLoop probe rs acc = acc @ ms
      \<and> list_all2 (classifiedByAnswer probe) (filter (\<lambda>r. rClientURLs r \<noteq> []) rs) ms"
proof (induction rs arbitrary: acc)
  case Nil
  then show ?case by simp
next
  case (Cons r rs)
  show ?case
  proof (cases "rClientURLs r = []")
    case True
    then show ?thesis using Cons.IH[of acc] by simp
  next
    case False
    let ?m = "\<lparr>ID = Sprint (rID r), Name = rName r, PeerURLs = rPeerURLs r,
               ClientURLs = rClientURLs r, Role = ROLE_FOLLOWER,
               Status = STATUS_UNHEALTHY, DbSize = 0\<rparr>"
    let ?m' = "case probe (rClientURLs r ! 0) of
                 Inl err \<Rightarrow> ?m
               | Inr resp \<Rightarrow>
                   (let m1 = ?m\<lparr>Status := STATUS_HEALTHY, DbSize := StatusDbSize resp\<rparr>
                    in if Leader resp = HeaderMemberId resp then m1\<lparr>Role := ROLE_LEADER\<rparr>
                       else m1)"
    have c: "classifiedByAnswer probe r ?m'"
      by (simp add: classifiedByAnswer_def Let_def split: sum.splits)
    obtain ms where ms: "membersLoop probe rs (acc @ [?m']) = (acc @ [?m']) @ ms"
      "list_all2 (classifiedByAnswer probe) (filter (\<lambda>r. rClientURLs r \<noteq> []) rs) ms"
      using Cons.IH[of "acc @ [?m']"] by blast
    have "membersLoop probe (r # rs) acc = acc @ (?m' # ms)"
      using False ms(1) by (simp add: Let_def)
    moreover have "list_all2 (classifiedByAnswer probe)
        (filter (\<lambda>r. rClientURLs r \<noteq> []) (r # rs)) (?m' # ms)"
      using False c ms(2) by simp
    ultimately show ?thesis by blast
  qed
qed

lemma classified_if_self:
  assumes "classifiedByAnswer probe r m"
    and "rClientURLs r = [] \<or> (case probe (rClientURLs r ! 0) of
                                    Inl err \<Rightarrow> True
                                  | Inr st \<Rightarrow> HeaderMemberId st = rID r)"
    and "rClientURLs r \<noteq> []"
  shows "classified probe r m"
  using assms by (auto simp: classifiedByAnswer_def classified_def split: sum.splits)

lemma Sprint_1: "Sprint (Suc 0) = ''1''"
  by code_simp

lemma Sprint_3: "Sprint 3 = ''3''"
  by code_simp

lemma Sprint_7: "Sprint 7 = ''7''"
  by code_simp

text \<open>
  Claim C7, as stated, fails. Member 7 advertises a client endpoint at which member 9
  answers, and member 9 reports itself as the leader. \<open>Members\<close> lists member 7 as
  the leader, although the leader that the probe reports, 9, is not the member's own
  identifier.
\<close>

theorem Members_leader_by_answer:
  "Members (Inr rosterShared) probeShared = Inr [memberShared]
   \<and> Role memberShared = ROLE_LEADER
   \<and> probeShared (rClientURLs (hd rosterShared) ! 0)
       = Inr \<lparr>HeaderMemberId = 9, Leader = 9, StatusDbSize = 4096\<rparr>
   \<and> rID (hd rosterShared) = 7
   \<and> \<not> classified probeShared (hd rosterShared) memberShared"
  by (simp add: Members_def rosterShared_def probeShared_def memberShared_def classified_def
      Sprint_7 Let_def)

text \<open>
  Claim C7, amended. If the roster cannot be read, \<open>Members\<close> returns that error.
  Otherwise it returns a list that matches, one to one and in order, the roster's
  entries with at least one client endpoint; an entry with none has no member in the
  list. A member whose probe fails is unhealthy, a follower, with size 0. A member whose
  probe succeeds is healthy with the reported size, and it is the leader exactly when
  the leader that the probe reports is the member that answered the probe (the
  identifier in the header of the answer, which line 240 compares), and a follower
  otherwise. Where every answered probe is answered by the probed member itself, that
  is the member's own identifier, and the classification is the one of the claim.
\<close>

theorem Members_classification:
  "Members (Inl err) probe = Inl (ClientError err)
   \<and> (\<exists>ms. Members (Inr roster) probe = Inr ms
         \<and> list_all2 (classifiedByAnswer probe) (filter (\<lambda>r. rClientURLs r \<noteq> []) roster) ms
         \<and> (answeredBySelf probe roster \<longrightarrow>
              list_all2 (classified probe) (filter (\<lambda>r. rClientURLs r \<noteq> []) roster) ms))"
proof -
  obtain ms where ms: "membersLoop probe roster [] = ms"
    "list_all2 (classifiedByAnswer probe) (filter (\<lambda>r. rClientURLs r \<noteq> []) roster) ms"
    using membersLoop_append[of probe roster "[]"] by auto
  have "list_all2 (classified probe) (filter (\<lambda>r. rClientURLs r \<noteq> []) roster) ms"
    if self: "answeredBySelf probe roster"
    using ms(2)
  proof (rule list.rel_mono_strong)
    fix r m
    assume r: "r \<in> set (filter (\<lambda>r. rClientURLs r \<noteq> []) roster)"
      and c: "classifiedByAnswer probe r m"
    have "rClientURLs r = [] \<or> (case probe (rClientURLs r ! 0) of
                                    Inl err \<Rightarrow> True
                                  | Inr st \<Rightarrow> HeaderMemberId st = rID r)"
      using self r by (auto simp: answeredBySelf_def list_all_iff)
    then show "classified probe r m"
      using classified_if_self[OF c] r by simp
  qed
  then show ?thesis using ms by (simp add: Members_def)
qed

text \<open>
  The roster of three, whose first member answers its own probe and reports itself as
  the leader: two members are listed, the healthy leader and the unhealthy follower,
  classified as the claim says.
\<close>

theorem Members_classification_witness:
  "answeredBySelf probe3 roster3
   \<and> Members (Inr roster3) probe3 =
       Inr [\<lparr>ID = ''1'', Name = ''n1'', PeerURLs = [''p1''], ClientURLs = [''c1''],
             Role = ROLE_LEADER, Status = STATUS_HEALTHY, DbSize = 4096\<rparr>,
            \<lparr>ID = ''3'', Name = ''n3'', PeerURLs = [''p3''], ClientURLs = [''c3''],
             Role = ROLE_FOLLOWER, Status = STATUS_UNHEALTHY, DbSize = 0\<rparr>]
   \<and> list_all2 (classified probe3) (filter (\<lambda>r. rClientURLs r \<noteq> []) roster3)
       [\<lparr>ID = ''1'', Name = ''n1'', PeerURLs = [''p1''], ClientURLs = [''c1''],
         Role = ROLE_LEADER, Status = STATUS_HEALTHY, DbSize = 4096\<rparr>,
        \<lparr>ID = ''3'', Name = ''n3'', PeerURLs = [''p3''], ClientURLs = [''c3''],
         Role = ROLE_FOLLOWER, Status = STATUS_UNHEALTHY, DbSize = 0\<rparr>]"
proof -
  have self: "answeredBySelf probe3 roster3"
    by (simp add: answeredBySelf_def roster3_def probe3_def)
  have run: "Members (Inr roster3) probe3 =
       Inr [\<lparr>ID = ''1'', Name = ''n1'', PeerURLs = [''p1''], ClientURLs = [''c1''],
             Role = ROLE_LEADER, Status = STATUS_HEALTHY, DbSize = 4096\<rparr>,
            \<lparr>ID = ''3'', Name = ''n3'', PeerURLs = [''p3''], ClientURLs = [''c3''],
             Role = ROLE_FOLLOWER, Status = STATUS_UNHEALTHY, DbSize = 0\<rparr>]"
    by (simp add: Members_def roster3_def probe3_def Sprint_1 Sprint_3 Let_def)
  show ?thesis
    using Members_classification[of _ probe3 roster3] self run by auto
qed

end
